theory Spec2Isabelle
  imports Main
begin

section \<open>Data model\<close>

text \<open>
  A window as yabai reports it (\<^verbatim>\<open>yabai -m query --windows\<close>), restricted to the fields the
  windows manager reads. Coordinates are integer pixels. \<open>ref\<close> is the identity of the
  JavaScript object that holds the window: \<^verbatim>\<open>JSON.parse\<close> allocates fresh objects at every
  query, and \<^verbatim>\<open>===\<close> on two windows compares that identity, not the fields.
\<close>

record frame =
  frame_x :: int
  frame_y :: int
  frame_w :: int
  frame_h :: int

record window =
  win_id :: int
  pid :: int
  app :: string
  frame :: frame
  split :: string
  focused :: int
  ref :: nat

text \<open>The two commands the manager sends to yabai:
  \<^verbatim>\<open>-m window <id> --toggle split\<close> and \<^verbatim>\<open>-m window <id> --warp <id>\<close>.\<close>

datatype command = ToggleSplit int | Warp int int

text \<open>The reason carried by an invalid layout (a formatted string in the source).\<close>

datatype reason = MainCountMismatch int int | MiddleWindowDetected string

datatype validity = Valid | Invalid reason

text \<open>
  Every way a call can throw: reading a property of \<^verbatim>\<open>undefined\<close> (the name of the property),
  a yabai command or query that fails, and the \<^verbatim>\<open>Error\<close> that \<^verbatim>\<open>updateWindows\<close> throws when
  the layout is still invalid at its end.
\<close>

datatype error = TypeError string | CommandFailed | InvalidLayoutAtEnd reason

text \<open>
  The windows manager object: its two fields, and two ghost fields for its environment.
  \<open>issued\<close> is the list of commands sent to yabai so far, oldest first; \<open>allocated\<close>
  counts the window objects created so far.
\<close>

record wm =
  expectedCurrentNumMainWindows :: int
  windowsData :: "window list"
  issued :: "command list"
  allocated :: nat

text \<open>
  yabai itself is not part of the repository. It is a parameter: the answer of
  \<^verbatim>\<open>-m query --windows\<close> after the commands sent so far, or the failure of the last
  command or of the query.
\<close>

type_synonym yabai = "command list \<Rightarrow> error + window list"

section \<open>Helpers for JavaScript arrays\<close>

text \<open>\<^verbatim>\<open>Array.prototype.sort\<close> with a comparator: a stable sort, as an insertion sort.\<close>

fun insertBy :: "('a \<Rightarrow> 'a \<Rightarrow> int) \<Rightarrow> 'a \<Rightarrow> 'a list \<Rightarrow> 'a list" where
  "insertBy cmp a [] = [a]"
| "insertBy cmp a (b # bs) = (if cmp a b \<le> 0 then a # b # bs else b # insertBy cmp a bs)"

definition sortBy :: "('a \<Rightarrow> 'a \<Rightarrow> int) \<Rightarrow> 'a list \<Rightarrow> 'a list" where
  "sortBy cmp xs = foldr (insertBy cmp) xs []"

text \<open>\<^verbatim>\<open>Array.prototype.filter\<close> with a callback that may throw.\<close>

fun filterE :: "('a \<Rightarrow> error + bool) \<Rightarrow> 'a list \<Rightarrow> error + 'a list" where
  "filterE p [] = Inr []"
| "filterE p (a # as) =
     (case p a of
        Inl e \<Rightarrow> Inl e
      | Inr b \<Rightarrow> (case filterE p as of
                    Inl e \<Rightarrow> Inl e
                  | Inr r \<Rightarrow> Inr (if b then a # r else r)))"

text \<open>\<^verbatim>\<open>Array.prototype.pop\<close>: the last element and the rest, or \<^verbatim>\<open>undefined\<close>.\<close>

definition pop :: "'a list \<Rightarrow> ('a \<times> 'a list) option" where
  "pop xs = (if xs = [] then None else Some (last xs, butlast xs))"

section \<open>Geometry and classification\<close>

definition getTopRightWindow :: "wm \<Rightarrow> error + window option" where
  "getTopRightWindow this =
     (case windowsData this of
        [] \<Rightarrow> Inl (TypeError ''frame'')
      | first # _ \<Rightarrow>
          (let lowestYCoordinate =
                 foldl (\<lambda>lowest window.
                          if frame_y (frame window) < lowest then frame_y (frame window) else lowest)
                       (frame_y (frame first)) (windowsData this);
               topWindows =
                 filter (\<lambda>window. frame_y (frame window) = lowestYCoordinate) (windowsData this)
           in case topWindows of
                [] \<Rightarrow> Inr None
              | t # _ \<Rightarrow>
                  Inr (Some (foldl (\<lambda>topRightWindow window.
                                      if frame_x (frame window) > frame_x (frame topRightWindow)
                                      then window else topRightWindow)
                                   t topWindows))))"

definition getTopLeftWindow :: "wm \<Rightarrow> window option" where
  "getTopLeftWindow this =
     (let leftWindows = filter (\<lambda>window. frame_x (frame window) = 0) (windowsData this)
      in case leftWindows of
           [] \<Rightarrow> None
         | l # _ \<Rightarrow>
             Some (foldl (\<lambda>topLeftWindow window.
                            if frame_y (frame window) \<le> frame_y (frame topLeftWindow)
                            then window else topLeftWindow)
                         l leftWindows))"

definition isStackWindow :: "window \<Rightarrow> bool" where
  "isStackWindow window = (frame_x (frame window) = 0)"

text \<open>The \<^verbatim>\<open>for\<close> loop of \<^verbatim>\<open>getDividingLineXCoordinate\<close> over adjacent pairs, from index \<open>i\<close>.\<close>

function getDividingLineXCoordinate_loop ::
  "window list \<Rightarrow> int \<Rightarrow> int \<Rightarrow> nat \<Rightarrow> int option" where
  "getDividingLineXCoordinate_loop eligibleWindows numWindowsToRightOfTopRightWindow expected i =
     (if int i < int (length eligibleWindows) - 1 then
        (let curWindow = eligibleWindows ! i;
             nextWindow = eligibleWindows ! (i + 1)
         in if frame_x (frame curWindow) = frame_x (frame nextWindow)
               \<and> numWindowsToRightOfTopRightWindow + int i + 2 \<ge> expected
            then Some (frame_x (frame curWindow))
            else getDividingLineXCoordinate_loop eligibleWindows
                   numWindowsToRightOfTopRightWindow expected (i + 1))
      else None)"
  by pat_completeness auto
termination
  by (relation "measure (\<lambda>(ws, k, m, i). length ws - i)") auto

declare getDividingLineXCoordinate_loop.simps [simp del]

definition getDividingLineXCoordinate :: "wm \<Rightarrow> error + int" where
  "getDividingLineXCoordinate this =
     (case getTopRightWindow this of
        Inl e \<Rightarrow> Inl e
      | Inr None \<Rightarrow> Inl (TypeError ''app'')
      | Inr (Some topRightWindow) \<Rightarrow>
          if expectedCurrentNumMainWindows this = 1 then Inr (frame_x (frame topRightWindow))
          else
            (let nonStackWindows = filter (\<lambda>window. \<not> isStackWindow window) (windowsData this);
                 eligibleWindows =
                   sortBy (\<lambda>window1 window2. frame_x (frame window2) - frame_x (frame window1))
                     (filter (\<lambda>window. frame_x (frame window) \<le> frame_x (frame topRightWindow))
                        nonStackWindows);
                 numWindowsToRightOfTopRightWindow =
                   int (length nonStackWindows) - int (length eligibleWindows)
             in if numWindowsToRightOfTopRightWindow \<ge> expectedCurrentNumMainWindows this
                then Inr (frame_x (frame topRightWindow))
                else (case getDividingLineXCoordinate_loop eligibleWindows
                             numWindowsToRightOfTopRightWindow
                             (expectedCurrentNumMainWindows this) 0 of
                        Some x \<Rightarrow> Inr x
                      | None \<Rightarrow> Inr (frame_x (frame topRightWindow)))))"

definition isMainWindow :: "wm \<Rightarrow> window \<Rightarrow> error + bool" where
  "isMainWindow this window =
     (case getDividingLineXCoordinate this of
        Inl e \<Rightarrow> Inl e
      | Inr dividingLineXCoordinate \<Rightarrow> Inr (frame_x (frame window) \<ge> dividingLineXCoordinate))"

text \<open>\<^verbatim>\<open>!isStackWindow(window) && !isMainWindow(window)\<close>: the second operand is evaluated
  only when the first is true.\<close>

definition isMiddleWindow :: "wm \<Rightarrow> window \<Rightarrow> error + bool" where
  "isMiddleWindow this window =
     (if \<not> isStackWindow window then
        (case isMainWindow this window of Inl e \<Rightarrow> Inl e | Inr b \<Rightarrow> Inr (\<not> b))
      else Inr False)"

definition getMiddleWindows :: "wm \<Rightarrow> error + window list" where
  "getMiddleWindows this = filterE (isMiddleWindow this) (windowsData this)"

definition getMainWindows :: "wm \<Rightarrow> error + window list" where
  "getMainWindows this =
     (case getDividingLineXCoordinate this of
        Inl e \<Rightarrow> Inl e
      | Inr dividingLineXCoordinate \<Rightarrow>
          Inr (filter (\<lambda>window. frame_x (frame window) \<ge> dividingLineXCoordinate)
                 (windowsData this)))"

definition getStackWindows :: "wm \<Rightarrow> window list" where
  "getStackWindows this = filter isStackWindow (windowsData this)"

section \<open>The layout validator\<close>

fun isValidLayout_loop :: "wm \<Rightarrow> window list \<Rightarrow> error + validity" where
  "isValidLayout_loop this [] = Inr Valid"
| "isValidLayout_loop this (window # rest) =
     (case isMiddleWindow this window of
        Inl e \<Rightarrow> Inl e
      | Inr isMiddle \<Rightarrow>
          if isMiddle then Inr (Invalid (MiddleWindowDetected (app window)))
          else isValidLayout_loop this rest)"

text \<open>\<open>props\<close> is the optional \<^verbatim>\<open>targetNumMainWindows\<close>; without it the expected count is
  the target.\<close>

definition isValidLayout :: "wm \<Rightarrow> int option \<Rightarrow> error + validity" where
  "isValidLayout this props =
     (let targetNumMainWindows =
            (case props of Some t \<Rightarrow> t | None \<Rightarrow> expectedCurrentNumMainWindows this)
      in case getMainWindows this of
           Inl e \<Rightarrow> Inl e
         | Inr mainWindows \<Rightarrow>
             (let curNumMainWindows = int (length mainWindows)
              in if targetNumMainWindows \<noteq> curNumMainWindows
                 then Inr (Invalid (MainCountMismatch curNumMainWindows
                                      (expectedCurrentNumMainWindows this)))
                 else isValidLayout_loop this (windowsData this)))"

section \<open>Commands and the refreshed snapshot\<close>

text \<open>Sequencing of calls that may throw.\<close>

fun andThen :: "error + 'a \<Rightarrow> ('a \<Rightarrow> error + 'b) \<Rightarrow> error + 'b" where
  "andThen (Inl e) f = Inl e"
| "andThen (Inr a) f = f a"

text \<open>
  \<^verbatim>\<open>getWindowsData\<close>: the query is parsed into fresh objects, numbered from \<open>n\<close>, and the
  windows whose split is \<^verbatim>\<open>'none'\<close> are dropped. The second component is the next free number.
\<close>

definition getWindowsData :: "yabai \<Rightarrow> command list \<Rightarrow> nat \<Rightarrow> error + window list \<times> nat" where
  "getWindowsData Y sent n =
     (case Y sent of
        Inl e \<Rightarrow> Inl e
      | Inr parsed \<Rightarrow>
          Inr (filter (\<lambda>win. split win \<noteq> ''none'')
                 (map (\<lambda>(i, win). win\<lparr>ref := i\<rparr>) (zip [n ..< n + length parsed] parsed)),
               n + length parsed))"

definition createWindowsManager :: "yabai \<Rightarrow> int \<Rightarrow> error + wm" where
  "createWindowsManager Y expected =
     andThen (getWindowsData Y [] 0) (\<lambda>(windows, n).
       Inr \<lparr>expectedCurrentNumMainWindows = expected, windowsData = windows,
            issued = [], allocated = n\<rparr>)"

definition refreshWindowsData :: "yabai \<Rightarrow> wm \<Rightarrow> error + wm" where
  "refreshWindowsData Y this =
     andThen (getWindowsData Y (issued this) (allocated this)) (\<lambda>(newWindowsData, n).
       Inr (this\<lparr>windowsData := newWindowsData, allocated := n\<rparr>))"

definition getUpdatedWindowData :: "wm \<Rightarrow> window \<Rightarrow> window option" where
  "getUpdatedWindowData this window =
     find (\<lambda>win. win_id window = win_id win) (windowsData this)"

text \<open>The command is run, then the snapshot is refreshed.\<close>

definition executeYabaiCommand :: "yabai \<Rightarrow> wm \<Rightarrow> command \<Rightarrow> error + wm" where
  "executeYabaiCommand Y this command =
     refreshWindowsData Y (this\<lparr>issued := issued this @ [command]\<rparr>)"

definition widest :: "window list \<Rightarrow> window option" where
  "widest windows =
     foldl (\<lambda>widestWindow window.
              case widestWindow of
                None \<Rightarrow> Some window
              | Some cur \<Rightarrow>
                  if frame_w (frame window) > frame_w (frame cur) then Some window
                  else widestWindow)
           None windows"

definition getWidestStackWindow :: "wm \<Rightarrow> window option" where
  "getWidestStackWindow this = widest (getStackWindows this)"

definition getWidestMainWindow :: "wm \<Rightarrow> error + window option" where
  "getWidestMainWindow this = andThen (getMainWindows this) (\<lambda>mainWindows. Inr (widest mainWindows))"

definition doesStackExist :: "wm \<Rightarrow> error + bool" where
  "doesStackExist this =
     andThen (getTopRightWindow this) (\<lambda>top.
       case top of
         None \<Rightarrow> Inl (TypeError ''frame'')
       | Some topRightWindow \<Rightarrow> Inr (frame_x (frame topRightWindow) \<noteq> 0))"

section \<open>Moving windows\<close>

fun columnizeStackWindows_loop :: "yabai \<Rightarrow> wm \<Rightarrow> window list \<Rightarrow> error + wm" where
  "columnizeStackWindows_loop Y this [] = Inr this"
| "columnizeStackWindows_loop Y this (stackWindow # rest) =
     (case getUpdatedWindowData this stackWindow of
        None \<Rightarrow> Inl (TypeError ''split'')
      | Some window \<Rightarrow>
          if split window = ''vertical'' then
            andThen (executeYabaiCommand Y this (ToggleSplit (win_id window)))
              (\<lambda>this'. columnizeStackWindows_loop Y this' rest)
          else columnizeStackWindows_loop Y this rest)"

definition columnizeStackWindows :: "yabai \<Rightarrow> wm \<Rightarrow> error + wm" where
  "columnizeStackWindows Y this =
     andThen (filterE (\<lambda>window. andThen (isMainWindow this window) (\<lambda>b. Inr (\<not> b)))
                (windowsData this))
       (\<lambda>stackWindows. columnizeStackWindows_loop Y this stackWindows)"

text \<open>The loop of \<^verbatim>\<open>createStack\<close> over the snapshot it started from; \<^verbatim>\<open>===\<close> compares
  object identities, and an undefined top-left window is equal to no window.\<close>

fun createStack_loop ::
  "yabai \<Rightarrow> wm \<Rightarrow> window \<Rightarrow> window option \<Rightarrow> window list \<Rightarrow> error + wm" where
  "createStack_loop Y this topRightWindow topLeftWindow [] = Inr this"
| "createStack_loop Y this topRightWindow topLeftWindow (window # rest) =
     (if ref window = ref topRightWindow
         \<or> (case topLeftWindow of None \<Rightarrow> False | Some topLeft \<Rightarrow> ref window = ref topLeft)
      then createStack_loop Y this topRightWindow topLeftWindow rest
      else (case topLeftWindow of
              None \<Rightarrow> Inl (TypeError ''id'')
            | Some topLeft \<Rightarrow>
                andThen (executeYabaiCommand Y this (Warp (win_id window) (win_id topLeft)))
                  (\<lambda>this'. createStack_loop Y this' topRightWindow topLeftWindow rest)))"

definition createStack :: "yabai \<Rightarrow> wm \<Rightarrow> error + wm" where
  "createStack Y this =
     andThen (getTopRightWindow this) (\<lambda>top.
       case top of
         None \<Rightarrow> Inl (TypeError ''split'')
       | Some topRightWindow \<Rightarrow>
           andThen (if split topRightWindow = ''horizontal''
                    then executeYabaiCommand Y this (ToggleSplit (win_id topRightWindow))
                    else Inr this)
             (\<lambda>this1.
                andThen (createStack_loop Y this1 topRightWindow (getTopLeftWindow this1)
                           (windowsData this1))
                  (\<lambda>this2. columnizeStackWindows Y this2)))"

definition moveWindowToStack :: "yabai \<Rightarrow> wm \<Rightarrow> window \<Rightarrow> error + wm" where
  "moveWindowToStack Y this window =
     (if length (windowsData this) = 2 then
        (if split window = ''horizontal''
         then executeYabaiCommand Y this (ToggleSplit (win_id window))
         else Inr this)
      else
        andThen (columnizeStackWindows Y this) (\<lambda>this1.
          case getWidestStackWindow this1 of
            None \<Rightarrow> Inr this1
          | Some stackWindow \<Rightarrow>
              andThen (executeYabaiCommand Y this1 (Warp (win_id window) (win_id stackWindow)))
                (\<lambda>this2.
                   case getUpdatedWindowData this2 window of
                     None \<Rightarrow> Inl (TypeError ''split'')
                   | Some window' \<Rightarrow>
                       if length (windowsData this2) = 2 then
                         (if split window' = ''horizontal''
                          then executeYabaiCommand Y this2 (ToggleSplit (win_id stackWindow))
                          else Inr this2)
                       else
                         (if split window' = ''vertical''
                          then executeYabaiCommand Y this2 (ToggleSplit (win_id stackWindow))
                          else Inr this2))))"

definition moveWindowToMain :: "yabai \<Rightarrow> wm \<Rightarrow> window \<Rightarrow> error + wm" where
  "moveWindowToMain Y this window =
     andThen (getWidestMainWindow this) (\<lambda>widestMain.
       case widestMain of
         None \<Rightarrow> Inr this
       | Some mainWindow \<Rightarrow>
           andThen (executeYabaiCommand Y this (Warp (win_id window) (win_id mainWindow)))
             (\<lambda>this1.
                case getUpdatedWindowData this1 window of
                  None \<Rightarrow> Inl (TypeError ''split'')
                | Some window' \<Rightarrow>
                    if split window' = ''vertical''
                    then executeYabaiCommand Y this1 (ToggleSplit (win_id mainWindow))
                    else Inr this1))"

section \<open>The rebalancer\<close>

text \<open>First loop of \<^verbatim>\<open>updateWindows\<close>: while there are too many main windows, pop the last
  of the sorted main windows and move it to the stack.\<close>

function updateWindows_tooMany ::
  "yabai \<Rightarrow> wm \<Rightarrow> window list \<Rightarrow> int \<Rightarrow> int \<Rightarrow> error + wm \<times> int" where
  "updateWindows_tooMany Y this mainWindows curNumMainWindows targetNumMainWindows =
     (if curNumMainWindows > targetNumMainWindows then
        (case pop mainWindows of
           None \<Rightarrow> Inl (TypeError ''app'')
         | Some (mainWindow, rest) \<Rightarrow>
             andThen (moveWindowToStack Y this mainWindow)
               (\<lambda>this'. updateWindows_tooMany Y this' rest (curNumMainWindows - 1)
                           targetNumMainWindows))
      else Inr (this, curNumMainWindows))"
  by pat_completeness auto
termination
  by (relation "measure (\<lambda>(Y, this, ws, cur, T). nat (cur - T))") auto

declare updateWindows_tooMany.simps [simp del]

text \<open>Second loop: while a middle window remains, move the first one to main or to the
  stack. Nothing bounds the number of iterations; \<open>None\<close> is a loop that never ends.\<close>

partial_function (option) updateWindows_middle ::
  "yabai \<Rightarrow> wm \<Rightarrow> int \<Rightarrow> int \<Rightarrow> (error + wm \<times> int) option" where
  "updateWindows_middle Y this curNumMainWindows targetNumMainWindows =
     (case getMiddleWindows this of
        Inl e \<Rightarrow> Some (Inl e)
      | Inr middleWindows \<Rightarrow>
          (case middleWindows of
             [] \<Rightarrow> Some (Inr (this, curNumMainWindows))
           | middleWindow # _ \<Rightarrow>
               if curNumMainWindows < targetNumMainWindows then
                 (case moveWindowToMain Y this middleWindow of
                    Inl e \<Rightarrow> Some (Inl e)
                  | Inr this' \<Rightarrow>
                      updateWindows_middle Y this' (curNumMainWindows + 1) targetNumMainWindows)
               else
                 (case moveWindowToStack Y this middleWindow of
                    Inl e \<Rightarrow> Some (Inl e)
                  | Inr this' \<Rightarrow>
                      updateWindows_middle Y this' curNumMainWindows targetNumMainWindows)))"

declare updateWindows_middle.simps [code]

text \<open>Third loop: while there are not enough main windows, pop the last of the sorted
  stack windows and move it to main.\<close>

function updateWindows_notEnough ::
  "yabai \<Rightarrow> wm \<Rightarrow> window list \<Rightarrow> int \<Rightarrow> int \<Rightarrow> error + wm" where
  "updateWindows_notEnough Y this stackWindows curNumMainWindows targetNumMainWindows =
     (if curNumMainWindows < targetNumMainWindows then
        (case pop stackWindows of
           None \<Rightarrow> Inl (TypeError ''app'')
         | Some (stackWindow, rest) \<Rightarrow>
             andThen (moveWindowToMain Y this stackWindow)
               (\<lambda>this'. updateWindows_notEnough Y this' rest (curNumMainWindows + 1)
                           targetNumMainWindows))
      else Inr this)"
  by pat_completeness auto
termination
  by (relation "measure (\<lambda>(Y, this, ws, cur, T). nat (T - cur))") auto

declare updateWindows_notEnough.simps [simp del]

text \<open>The start of the pass: \<^verbatim>\<open>createStack\<close> is the method \<^verbatim>\<open>this.createStack\<close>, given as an
  argument; \<^verbatim>\<open>&&\<close> asks \<^verbatim>\<open>doesStackExist\<close> only when the target differs from the number of
  windows.\<close>

definition updateWindows_ensureStack ::
  "(wm \<Rightarrow> error + wm) \<Rightarrow> wm \<Rightarrow> int \<Rightarrow> int \<Rightarrow> error + wm" where
  "updateWindows_ensureStack createStack' this numWindows targetNumMainWindows =
     (if targetNumMainWindows \<noteq> numWindows
      then andThen (doesStackExist this)
             (\<lambda>stackExists. if \<not> stackExists then createStack' this else Inr this)
      else Inr this)"

text \<open>The block of \<^verbatim>\<open>updateWindows\<close> under \<^verbatim>\<open>if (numWindows > 2)\<close>.\<close>

definition updateWindows_rebalance ::
  "yabai \<Rightarrow> wm \<Rightarrow> int \<Rightarrow> int \<Rightarrow> (error + wm) option" where
  "updateWindows_rebalance Y this numWindows targetNumMainWindows =
     (if numWindows > 2 then
        (case getMainWindows this of
           Inl e \<Rightarrow> Some (Inl e)
         | Inr mainWindows \<Rightarrow>
             (case (if int (length mainWindows) > targetNumMainWindows
                    then updateWindows_tooMany Y this
                           (sortBy (\<lambda>window1 window2.
                                      if frame_y (frame window1) \<noteq> frame_y (frame window2)
                                      then frame_y (frame window1) - frame_y (frame window2)
                                      else frame_x (frame window1) - frame_x (frame window2))
                              mainWindows)
                           (int (length mainWindows)) targetNumMainWindows
                    else Inr (this, int (length mainWindows))) of
                Inl e \<Rightarrow> Some (Inl e)
              | Inr (this1, curNumMainWindows1) \<Rightarrow>
                  (case updateWindows_middle Y this1 curNumMainWindows1 targetNumMainWindows of
                     None \<Rightarrow> None
                   | Some (Inl e) \<Rightarrow> Some (Inl e)
                   | Some (Inr (this2, curNumMainWindows2)) \<Rightarrow>
                       Some (updateWindows_notEnough Y this2
                               (sortBy (\<lambda>window1 window2.
                                          if frame_x (frame window1) \<noteq> frame_x (frame window2)
                                          then frame_x (frame window2) - frame_x (frame window1)
                                          else frame_y (frame window2) - frame_y (frame window1))
                                  (getStackWindows this2))
                               curNumMainWindows2 targetNumMainWindows))))
      else Some (Inr this))"

text \<open>The end of \<^verbatim>\<open>updateWindows\<close>: the layout is validated again; the error carries the
  reason of the first validation; the expected count is set last.\<close>

definition updateWindows_finish :: "reason \<Rightarrow> wm \<Rightarrow> int \<Rightarrow> error + wm" where
  "updateWindows_finish reason this targetNumMainWindows =
     (case isValidLayout this (Some targetNumMainWindows) of
        Inl e \<Rightarrow> Inl e
      | Inr Valid \<Rightarrow> Inr (this\<lparr>expectedCurrentNumMainWindows := targetNumMainWindows\<rparr>)
      | Inr (Invalid _) \<Rightarrow> Inl (InvalidLayoutAtEnd reason))"

text \<open>
  \<^verbatim>\<open>updateWindows\<close>, with the method \<^verbatim>\<open>this.createStack\<close> that it calls as the argument
  \<open>createStack'\<close>. \<open>numWindows\<close> is read once, before the stack is created.
\<close>

definition updateWindows_using ::
  "(wm \<Rightarrow> error + wm) \<Rightarrow> yabai \<Rightarrow> wm \<Rightarrow> int \<Rightarrow> (error + wm) option" where
  "updateWindows_using createStack' Y this targetNumMainWindows =
     (case isValidLayout this (Some targetNumMainWindows) of
        Inl e \<Rightarrow> Some (Inl e)
      | Inr Valid \<Rightarrow> Some (Inr this)
      | Inr (Invalid reason) \<Rightarrow>
          (let numWindows = int (length (windowsData this))
           in case updateWindows_ensureStack createStack' this numWindows
                     targetNumMainWindows of
                Inl e \<Rightarrow> Some (Inl e)
              | Inr this1 \<Rightarrow>
                  (case updateWindows_rebalance Y this1 numWindows targetNumMainWindows of
                     None \<Rightarrow> None
                   | Some (Inl e) \<Rightarrow> Some (Inl e)
                   | Some (Inr this2) \<Rightarrow>
                       Some (updateWindows_finish reason this2 targetNumMainWindows))))"

definition updateWindows :: "yabai \<Rightarrow> wm \<Rightarrow> int \<Rightarrow> (error + wm) option" where
  "updateWindows Y this targetNumMainWindows =
     updateWindows_using (createStack Y) Y this targetNumMainWindows"

section \<open>The top-level error handler\<close>

text \<open>A JavaScript \<^verbatim>\<open>Error\<close> with its optional \<^verbatim>\<open>code\<close>, and the lines written to the console:
  \<^verbatim>\<open>console.info\<close> writes a message, \<^verbatim>\<open>console.error\<close> writes the error itself.\<close>

record js_error =
  code :: "string option"
  message :: string

datatype console_line = Info string | ErrorLine js_error

record process =
  console :: "console_line list"
  lockHeld :: bool

definition handleMasterError :: "js_error \<Rightarrow> process \<Rightarrow> process" where
  "handleMasterError error p =
     (if code error = Some ''ELOCKED''
      then p\<lparr>console := console p @ [Info ''Lock found...aborting'']\<rparr>
      else p\<lparr>console := console p @ [ErrorLine error]\<rparr>)"

text \<open>Modelled from the spec: \<^verbatim>\<open>acquireHandlerLock\<close> and \<^verbatim>\<open>releaseHandlerLock\<close> of
  \<^verbatim>\<open>utils/handler\<close>, which is not among the sources. Acquiring creates the marker and
  fails at once with the already-locked condition when it exists; releasing removes it and
  is safe when it was never acquired.\<close>

definition acquireHandlerLock :: "process \<Rightarrow> js_error + process" where
  "acquireHandlerLock p =
     (if lockHeld p then Inl \<lparr>code = Some ''ELOCKED'', message = ''Lock file is already being held''\<rparr>
      else Inr (p\<lparr>lockHeld := True\<rparr>))"

definition releaseHandlerLock :: "process \<Rightarrow> process" where
  "releaseHandlerLock p = p\<lparr>lockHeld := False\<rparr>"

text \<open>
  \<^verbatim>\<open>main(cb)\<close>: the lock is acquired outside the promise chain, so its failure is thrown by
  \<^verbatim>\<open>main\<close> itself; a rejection of the callback goes to \<^verbatim>\<open>handleMasterError\<close>, whose normal
  return fulfils the promise; the lock is released in \<^verbatim>\<open>finally\<close>. The callback is given by
  what it does to the process: it rejects with an error or fulfils.
\<close>

definition main :: "(process \<Rightarrow> js_error + process) \<Rightarrow> process \<Rightarrow> js_error + process" where
  "main cb p =
     (case acquireHandlerLock p of
        Inl e \<Rightarrow> Inl e
      | Inr p1 \<Rightarrow>
          Inr (releaseHandlerLock
                 (case cb p1 of
                    Inl error \<Rightarrow> handleMasterError error p1
                  | Inr p2 \<Rightarrow> p2)))"

section \<open>The dividing line as the specification words it\<close>

text \<open>
  With \<open>R\<close> the top-right window and \<open>m\<close> the expected count: \<open>N\<close> are the non-stack
  windows, \<open>E\<close> the members of \<open>N\<close> with \<open>frame.x \<le> R.frame.x\<close> sorted by \<open>frame.x\<close>
  descending, \<open>k = |N| - |E|\<close>; the line is the \<open>frame.x\<close> of the first adjacent pair of
  \<open>E\<close> with equal \<open>frame.x\<close> and \<open>k + i + 2 \<ge> m\<close>, and \<open>R.frame.x\<close> in every other case.
\<close>

definition dividingLine_spec :: "window \<Rightarrow> window list \<Rightarrow> int \<Rightarrow> int" where
  "dividingLine_spec R snapshot m =
     (if m = 1 then frame_x (frame R)
      else
        (let N = filter (\<lambda>w. frame_x (frame w) \<noteq> 0) snapshot;
             E = sort_key (\<lambda>w. - frame_x (frame w))
                   (filter (\<lambda>w. frame_x (frame w) \<le> frame_x (frame R)) N);
             k = int (length N) - int (length E)
         in if k \<ge> m then frame_x (frame R)
            else (case find (\<lambda>i. frame_x (frame (E ! i)) = frame_x (frame (E ! (i + 1)))
                                  \<and> k + int i + 2 \<ge> m) [0 ..< length E - 1] of
                    Some i \<Rightarrow> frame_x (frame (E ! i))
                  | None \<Rightarrow> frame_x (frame R))))"

section \<open>Example snapshots\<close>

definition mkWindow :: "int \<Rightarrow> string \<Rightarrow> int \<Rightarrow> int \<Rightarrow> int \<Rightarrow> int \<Rightarrow> string \<Rightarrow> window" where
  "mkWindow i name fx fy fw fh s =
     \<lparr>win_id = i, pid = i, app = name,
      frame = \<lparr>frame_x = fx, frame_y = fy, frame_w = fw, frame_h = fh\<rparr>,
      split = s, focused = 0, ref = nat i\<rparr>"

definition mkManager :: "int \<Rightarrow> window list \<Rightarrow> wm" where
  "mkManager expected windows =
     \<lparr>expectedCurrentNumMainWindows = expected, windowsData = windows,
      issued = [], allocated = Suc (length windows)\<rparr>"

text \<open>A yabai that answers every query with the same windows, whatever it was sent.\<close>

definition steady :: "window list \<Rightarrow> yabai" where
  "steady windows = (\<lambda>sent. Inr windows)"

text \<open>One window that fills the screen.\<close>

definition fullScreen :: "window list" where
  "fullScreen = [mkWindow 1 ''Terminal'' 0 0 1280 800 ''vertical'']"

text \<open>Three columns: a stack window on the left, two windows one above the other in the
  middle column, one window on the right.\<close>

definition threeColumns :: "window list" where
  "threeColumns =
     [mkWindow 1 ''Mail'' 0 0 300 800 ''vertical'',
      mkWindow 2 ''Editor'' 300 0 300 400 ''horizontal'',
      mkWindow 3 ''Shell'' 300 400 300 400 ''horizontal'',
      mkWindow 4 ''Browser'' 600 0 400 800 ''vertical'']"

text \<open>A screen with a padding of 10 pixels: no window starts at \<open>x = 0\<close>. One window on the
  left, two windows one above the other on the right.\<close>

definition padded :: "window list" where
  "padded =
     [mkWindow 1 ''Notes'' 10 10 490 780 ''horizontal'',
      mkWindow 2 ''Editor'' 510 10 480 385 ''horizontal'',
      mkWindow 3 ''Shell'' 510 405 480 385 ''horizontal'']"

text \<open>A stack window on the left and two main windows one above the other on the right.\<close>

definition masterStack :: "window list" where
  "masterStack =
     [mkWindow 1 ''Notes'' 0 0 500 800 ''vertical'',
      mkWindow 2 ''Editor'' 500 0 500 400 ''horizontal'',
      mkWindow 3 ''Shell'' 500 400 500 400 ''horizontal'']"

text \<open>Two windows one above the other, both as wide as the screen, and the same two
  windows side by side.\<close>

definition rows :: "window list" where
  "rows =
     [mkWindow 1 ''Editor'' 0 0 1000 400 ''horizontal'',
      mkWindow 2 ''Shell'' 0 400 1000 400 ''horizontal'']"

definition columns :: "window list" where
  "columns =
     [mkWindow 1 ''Editor'' 0 0 500 800 ''horizontal'',
      mkWindow 2 ''Shell'' 500 0 500 800 ''horizontal'']"

text \<open>A yabai that shows the two rows until it is sent a command, and the two columns from
  then on.\<close>

definition turning :: yabai where
  "turning = (\<lambda>sent. if sent = [] then Inr rows else Inr columns)"

text \<open>The manager after \<^verbatim>\<open>createStack\<close> has turned the two rows into the two columns: two
  commands were sent, and the snapshot was read again after each.\<close>

definition turned :: "int \<Rightarrow> wm" where
  "turned expected =
     \<lparr>expectedCurrentNumMainWindows = expected,
      windowsData =
        [(mkWindow 1 ''Editor'' 0 0 500 800 ''horizontal'')\<lparr>ref := 5\<rparr>,
         (mkWindow 2 ''Shell'' 500 0 500 800 ''horizontal'')\<lparr>ref := 6\<rparr>],
      issued = [ToggleSplit 1, Warp 2 1], allocated = 7\<rparr>"






text \<open>A \<^verbatim>\<open>createStack\<close> that throws at once: \<^verbatim>\<open>updateWindows\<close> throws this error exactly
  when it calls the method.\<close>

definition failingCreateStack :: "wm \<Rightarrow> error + wm" where
  "failingCreateStack = (\<lambda>this. Inl CommandFailed)"

text \<open>A process that holds no lock and has written nothing, the error of a lock that is
  already held, an error without a code, and a callback that rejects with a given error.\<close>

definition idle :: process where
  "idle = \<lparr>console = [], lockHeld = False\<rparr>"

definition lockedError :: js_error where
  "lockedError = \<lparr>code = Some ''ELOCKED'', message = ''Lock file is already being held''\<rparr>"

definition plainError :: js_error where
  "plainError = \<lparr>code = None, message = ''Window with id 7 not found.''\<rparr>"

definition rejecting :: "js_error \<Rightarrow> process \<Rightarrow> js_error + process" where
  "rejecting error = (\<lambda>p. Inl error)"

section \<open>Classification is a cover of the snapshot\<close>

lemma foldl_lowest_mem:
  "foldl (\<lambda>lowest window. if f window < lowest then f window else lowest) (a::int) ws \<in> insert a (f ` set ws)"
  by (induction ws arbitrary: a) auto

lemma foldl_pick_mem:
  "foldl (\<lambda>best window. if p window best then window else best) a ws \<in> insert a (set ws)"
  by (induction ws arbitrary: a) auto

lemma getTopRightWindow_nonempty:
  assumes "windowsData this \<noteq> []"
  shows "\<exists>r. getTopRightWindow this = Inr (Some r) \<and> r \<in> set (windowsData this)"
proof -
  from assms obtain first rest where ws: "windowsData this = first # rest"
    by (cases "windowsData this") auto
  define low where "low = foldl (\<lambda>lowest window.
      if frame_y (frame window) < lowest then frame_y (frame window) else lowest)
      (frame_y (frame first)) (windowsData this)"
  define tops where "tops = filter (\<lambda>window. frame_y (frame window) = low) (windowsData this)"
  have "low \<in> insert (frame_y (frame first)) ((\<lambda>w. frame_y (frame w)) ` set (windowsData this))"
    unfolding low_def by (rule foldl_lowest_mem)
  then have "low \<in> (\<lambda>w. frame_y (frame w)) ` set (windowsData this)"
    using ws by auto
  then have "tops \<noteq> []"
    unfolding tops_def by (auto simp: filter_empty_conv)
  then obtain t ts where tops: "tops = t # ts"
    by (cases tops) auto
  define r where "r = foldl (\<lambda>topRightWindow window.
      if frame_x (frame window) > frame_x (frame topRightWindow) then window else topRightWindow)
      t tops"
  have "r \<in> insert t (set tops)"
    unfolding r_def by (rule foldl_pick_mem [where p = "\<lambda>w b. frame_x (frame w) > frame_x (frame b)"])
  then have "r \<in> set tops"
    using tops by auto
  then have "r \<in> set (windowsData this)"
    unfolding tops_def by simp
  moreover have "getTopRightWindow this = Inr (Some r)"
  proof -
    have "getTopRightWindow this =
      (case tops of [] \<Rightarrow> Inr None
       | t # _ \<Rightarrow> Inr (Some (foldl (\<lambda>topRightWindow window.
            if frame_x (frame window) > frame_x (frame topRightWindow) then window else topRightWindow)
            t tops)))"
      unfolding getTopRightWindow_def tops_def low_def Let_def
      by (simp only: ws list.case)
    then show ?thesis
      by (simp only: tops list.case r_def)
  qed
  ultimately show ?thesis by blast
qed

lemma foldl_lowest_le:
  "foldl (\<lambda>lowest window. if f window < lowest then f window else lowest) (a::int) ws \<le> a
   \<and> (\<forall>w\<in>set ws.
         foldl (\<lambda>lowest window. if f window < lowest then f window else lowest) a ws \<le> f w)"
proof (induction ws arbitrary: a)
  case Nil
  show ?case by simp
next
  case (Cons v vs)
  define b where "b = (if f v < a then f v else a)"
  define r where "r = foldl (\<lambda>lowest window. if f window < lowest then f window else lowest) b vs"
  have b: "b \<le> a" "b \<le> f v" unfolding b_def by simp_all
  have step: "foldl (\<lambda>lowest window. if f window < lowest then f window else lowest) a (v # vs) = r"
    unfolding r_def b_def by simp
  from Cons.IH [of b] have "r \<le> b" "\<forall>w\<in>set vs. r \<le> f w"
    unfolding r_def by simp_all
  with b show ?case
    unfolding step by auto
qed

lemma foldl_rightmost_ge:
  "frame_x (frame a)
     \<le> frame_x (frame (foldl (\<lambda>topRightWindow window.
            if frame_x (frame window) > frame_x (frame topRightWindow)
            then window else topRightWindow) a ws))
   \<and> (\<forall>w\<in>set ws. frame_x (frame w)
     \<le> frame_x (frame (foldl (\<lambda>topRightWindow window.
            if frame_x (frame window) > frame_x (frame topRightWindow)
            then window else topRightWindow) a ws)))"
proof (induction ws arbitrary: a)
  case Nil
  show ?case by simp
next
  case (Cons v vs)
  define b where "b = (if frame_x (frame v) > frame_x (frame a) then v else a)"
  define r where "r = foldl (\<lambda>topRightWindow window.
            if frame_x (frame window) > frame_x (frame topRightWindow)
            then window else topRightWindow) b vs"
  have b: "frame_x (frame a) \<le> frame_x (frame b)" "frame_x (frame v) \<le> frame_x (frame b)"
    unfolding b_def by simp_all
  have step: "foldl (\<lambda>topRightWindow window.
            if frame_x (frame window) > frame_x (frame topRightWindow)
            then window else topRightWindow) a (v # vs) = r"
    unfolding r_def b_def by simp
  from Cons.IH [of b] have "frame_x (frame b) \<le> frame_x (frame r)"
    "\<forall>w\<in>set vs. frame_x (frame w) \<le> frame_x (frame r)"
    unfolding r_def by simp_all
  with b show ?case
    unfolding step by auto
qed

text \<open>What \<^verbatim>\<open>getTopRightWindow\<close> returns is in the snapshot, no window is higher, and no
  window at the same height is further right.\<close>

lemma getTopRightWindow_Some:
  assumes "getTopRightWindow this = Inr (Some R)"
  shows "R \<in> set (windowsData this)
       \<and> (\<forall>w\<in>set (windowsData this). frame_y (frame R) \<le> frame_y (frame w))
       \<and> (\<forall>w\<in>set (windowsData this).
             frame_y (frame w) = frame_y (frame R) \<longrightarrow> frame_x (frame w) \<le> frame_x (frame R))"
proof -
  from assms obtain first rest where ws: "windowsData this = first # rest"
    by (cases "windowsData this") (simp_all add: getTopRightWindow_def)
  define low where "low = foldl (\<lambda>lowest window.
      if frame_y (frame window) < lowest then frame_y (frame window) else lowest)
      (frame_y (frame first)) (windowsData this)"
  define tops where "tops = filter (\<lambda>window. frame_y (frame window) = low) (windowsData this)"
  have shape: "getTopRightWindow this =
      (case tops of [] \<Rightarrow> Inr None
       | t # _ \<Rightarrow> Inr (Some (foldl (\<lambda>topRightWindow window.
            if frame_x (frame window) > frame_x (frame topRightWindow) then window else topRightWindow)
            t tops)))"
    unfolding getTopRightWindow_def tops_def low_def Let_def
    by (simp only: ws list.case)
  with assms obtain t ts where tops: "tops = t # ts"
    by (cases tops) simp_all
  with shape assms have R: "R = foldl (\<lambda>topRightWindow window.
            if frame_x (frame window) > frame_x (frame topRightWindow) then window else topRightWindow)
            t tops"
    by simp
  have "R \<in> insert t (set tops)"
    unfolding R by (rule foldl_pick_mem [where p = "\<lambda>w b. frame_x (frame w) > frame_x (frame b)"])
  with tops have Rtop: "R \<in> set tops" by auto
  then have Rin: "R \<in> set (windowsData this)" and Ry: "frame_y (frame R) = low"
    unfolding tops_def by simp_all
  have lowest: "\<forall>w\<in>set (windowsData this). low \<le> frame_y (frame w)"
    unfolding low_def
    using foldl_lowest_le [of "\<lambda>w. frame_y (frame w)" "frame_y (frame first)" "windowsData this"]
    by blast
  have rightmost: "\<forall>w\<in>set tops. frame_x (frame w) \<le> frame_x (frame R)"
    unfolding R using foldl_rightmost_ge [of t tops] by blast
  have "\<forall>w\<in>set (windowsData this).
          frame_y (frame w) = frame_y (frame R) \<longrightarrow> frame_x (frame w) \<le> frame_x (frame R)"
  proof (intro ballI impI)
    fix w assume "w \<in> set (windowsData this)" "frame_y (frame w) = frame_y (frame R)"
    then have "w \<in> set tops" unfolding tops_def Ry by simp
    with rightmost show "frame_x (frame w) \<le> frame_x (frame R)" by blast
  qed
  with Rin lowest Ry show ?thesis by simp
qed

lemma getDividingLineXCoordinate_nonempty:
  assumes "windowsData this \<noteq> []"
  shows "\<exists>d. getDividingLineXCoordinate this = Inr d"
proof -
  from getTopRightWindow_nonempty [OF assms] obtain r where
    "getTopRightWindow this = Inr (Some r)" by blast
  then show ?thesis
    unfolding getDividingLineXCoordinate_def
    by (simp add: Let_def split: option.split)
qed

lemma filterE_total:
  assumes "\<And>a. a \<in> set xs \<Longrightarrow> p a = Inr (q a)"
  shows "filterE p xs = Inr (filter q xs)"
  using assms by (induction xs) auto

lemma getMiddleWindows_eq:
  assumes "getDividingLineXCoordinate this = Inr d"
  shows "getMiddleWindows this =
    Inr (filter (\<lambda>w. frame_x (frame w) \<noteq> 0 \<and> frame_x (frame w) < d) (windowsData this))"
  unfolding getMiddleWindows_def
  by (rule filterE_total) (auto simp: isMiddleWindow_def isMainWindow_def isStackWindow_def assms)

lemma getMainWindows_eq:
  assumes "getDividingLineXCoordinate this = Inr d"
  shows "getMainWindows this = Inr (filter (\<lambda>w. d \<le> frame_x (frame w)) (windowsData this))"
  unfolding getMainWindows_def by (simp add: assms)

text \<open>
  C1. For every non-empty snapshot the dividing line, the main windows and the middle
  windows are computed without error; the stack windows are the windows with \<open>x = 0\<close>, the
  main windows those with \<open>x\<close> at or right of the dividing line, the middle windows those
  that are neither. The three lists cover the snapshot, the middle windows are disjoint from
  the other two, and the stack and main windows are disjoint when the dividing line is
  positive; when it is not, every stack window is also a main window.
\<close>

theorem classification_cover:
  assumes "windowsData this \<noteq> []"
  shows "\<exists>d mainWindows middleWindows.
           getDividingLineXCoordinate this = Inr d
         \<and> getMainWindows this = Inr mainWindows
         \<and> getMiddleWindows this = Inr middleWindows
         \<and> set (getStackWindows this) = {w \<in> set (windowsData this). frame_x (frame w) = 0}
         \<and> set mainWindows = {w \<in> set (windowsData this). d \<le> frame_x (frame w)}
         \<and> set middleWindows =
             {w \<in> set (windowsData this). frame_x (frame w) \<noteq> 0 \<and> frame_x (frame w) < d}
         \<and> set (getStackWindows this) \<union> set mainWindows \<union> set middleWindows
             = set (windowsData this)
         \<and> set middleWindows \<inter> set (getStackWindows this) = {}
         \<and> set middleWindows \<inter> set mainWindows = {}
         \<and> (0 < d \<longrightarrow> set (getStackWindows this) \<inter> set mainWindows = {})
         \<and> (d \<le> 0 \<longrightarrow> set (getStackWindows this) \<subseteq> set mainWindows)"
proof -
  from getDividingLineXCoordinate_nonempty [OF assms] obtain d where
    d: "getDividingLineXCoordinate this = Inr d" by blast
  show ?thesis
  proof (intro exI conjI)
    show "getDividingLineXCoordinate this = Inr d" by (rule d)
    show "getMainWindows this = Inr (filter (\<lambda>w. d \<le> frame_x (frame w)) (windowsData this))"
      by (rule getMainWindows_eq [OF d])
    show "getMiddleWindows this =
        Inr (filter (\<lambda>w. frame_x (frame w) \<noteq> 0 \<and> frame_x (frame w) < d) (windowsData this))"
      by (rule getMiddleWindows_eq [OF d])
  qed (auto simp: getStackWindows_def isStackWindow_def)
qed

theorem classification_cover_witness:
  "windowsData (mkManager 2 threeColumns) \<noteq> [] \<and>
   (\<exists>d mainWindows middleWindows.
      getDividingLineXCoordinate (mkManager 2 threeColumns) = Inr d
    \<and> getMainWindows (mkManager 2 threeColumns) = Inr mainWindows
    \<and> getMiddleWindows (mkManager 2 threeColumns) = Inr middleWindows
    \<and> set (getStackWindows (mkManager 2 threeColumns)) \<union> set mainWindows \<union> set middleWindows
        = set (windowsData (mkManager 2 threeColumns))
    \<and> set middleWindows \<inter> set (getStackWindows (mkManager 2 threeColumns)) = {}
    \<and> set middleWindows \<inter> set mainWindows = {})"
proof -
  have h: "windowsData (mkManager 2 threeColumns) \<noteq> []"
    by (simp add: mkManager_def threeColumns_def)
  from classification_cover [OF h] h show ?thesis by blast
qed

text \<open>C1 as the specification words it, with three pairwise disjoint sets, fails on a
  single full-screen window: with an expected count of 1
  the dividing line is 0, and the window is a stack window and a main window at once.\<close>

theorem classification_overlap_counterexample:
  "getStackWindows (mkManager 1 fullScreen) = fullScreen
   \<and> getMainWindows (mkManager 1 fullScreen) = Inr fullScreen
   \<and> fullScreen \<noteq> []"
  by code_simp

section \<open>The dividing line\<close>

lemma insertBy_insort_key:
  "insertBy (\<lambda>a b. f b - f a) a bs = insort_key (\<lambda>w. - f w) a bs"
  by (induction bs) auto

lemma sortBy_sort_key:
  "sortBy (\<lambda>a b. f b - f a) xs = sort_key (\<lambda>w. - f w) xs"
  unfolding sortBy_def by (induction xs) (simp_all add: insertBy_insort_key)

lemma loop_find:
  "getDividingLineXCoordinate_loop E k m i =
     map_option (\<lambda>j. frame_x (frame (E ! j)))
       (find (\<lambda>i. frame_x (frame (E ! i)) = frame_x (frame (E ! (i + 1))) \<and> k + int i + 2 \<ge> m)
          [i ..< length E - 1])"
proof (induction E k m i rule: getDividingLineXCoordinate_loop.induct)
  case (1 E k m i)
  show ?case
  proof (cases "int i < int (length E) - 1")
    case True
    then have lt: "i < length E - 1" by linarith
    then have up: "[i ..< length E - Suc 0] = i # [Suc i ..< length E - Suc 0]"
      by (simp add: upt_conv_Cons)
    show ?thesis
      using True "1.IH" [OF True refl refl]
      by (subst getDividingLineXCoordinate_loop.simps) (auto simp: up Let_def)
  next
    case False
    then have "\<not> i < length E - 1" by linarith
    then show ?thesis
      using False by (subst getDividingLineXCoordinate_loop.simps) simp
  qed
qed

lemma getDividingLineXCoordinate_spec:
  assumes "getTopRightWindow this = Inr (Some R)"
  shows "getDividingLineXCoordinate this =
           Inr (dividingLine_spec R (windowsData this) (expectedCurrentNumMainWindows this))"
  unfolding getDividingLineXCoordinate_def dividingLine_spec_def
  by (simp add: assms Let_def sortBy_sort_key [where f = "\<lambda>w. frame_x (frame w)"] loop_find
        isStackWindow_def split: option.split)

text \<open>
  C3. For every non-empty snapshot, \<^verbatim>\<open>getDividingLineXCoordinate\<close> returns the value the
  specification describes, for the expected count of the manager and for \<open>R\<close> the top-right
  window of the snapshot: a window of the snapshot with the least \<open>frame.y\<close> and, among the
  windows with that \<open>frame.y\<close>, the greatest \<open>frame.x\<close>.
\<close>

theorem getDividingLineXCoordinate_refines:
  assumes "windowsData this \<noteq> []"
  shows "\<exists>R. getTopRightWindow this = Inr (Some R)
           \<and> R \<in> set (windowsData this)
           \<and> (\<forall>w\<in>set (windowsData this). frame_y (frame R) \<le> frame_y (frame w))
           \<and> (\<forall>w\<in>set (windowsData this).
                 frame_y (frame w) = frame_y (frame R) \<longrightarrow>
                 frame_x (frame w) \<le> frame_x (frame R))
           \<and> getDividingLineXCoordinate this =
               Inr (dividingLine_spec R (windowsData this) (expectedCurrentNumMainWindows this))"
proof -
  from getTopRightWindow_nonempty [OF assms] obtain R where
    R: "getTopRightWindow this = Inr (Some R)" by blast
  from getTopRightWindow_Some [OF R] getDividingLineXCoordinate_spec [OF R] R
  show ?thesis by (intro exI [of _ R]) simp
qed

theorem getDividingLineXCoordinate_refines_witness:
  "windowsData (mkManager 2 threeColumns) \<noteq> []
   \<and> (\<exists>R. getTopRightWindow (mkManager 2 threeColumns) = Inr (Some R)
         \<and> R \<in> set (windowsData (mkManager 2 threeColumns))
         \<and> frame_x (frame R) = 600 \<and> frame_y (frame R) = 0
         \<and> getDividingLineXCoordinate (mkManager 2 threeColumns) =
             Inr (dividingLine_spec R (windowsData (mkManager 2 threeColumns))
                    (expectedCurrentNumMainWindows (mkManager 2 threeColumns))))
   \<and> getDividingLineXCoordinate (mkManager 2 threeColumns) = Inr 300"
proof -
  have h: "windowsData (mkManager 2 threeColumns) \<noteq> []"
    by (simp add: mkManager_def threeColumns_def)
  have t: "getTopRightWindow (mkManager 2 threeColumns)
             = Inr (Some (mkWindow 4 ''Browser'' 600 0 400 800 ''vertical''))"
    by code_simp
  have x: "frame_x (frame (mkWindow 4 ''Browser'' 600 0 400 800 ''vertical'')) = 600"
    "frame_y (frame (mkWindow 4 ''Browser'' 600 0 400 800 ''vertical'')) = 0"
    by (simp_all add: mkWindow_def)
  have d: "getDividingLineXCoordinate (mkManager 2 threeColumns) = Inr 300"
    by code_simp
  from getDividingLineXCoordinate_refines [OF h] obtain R where
    R: "getTopRightWindow (mkManager 2 threeColumns) = Inr (Some R)"
    "R \<in> set (windowsData (mkManager 2 threeColumns))"
    "getDividingLineXCoordinate (mkManager 2 threeColumns) =
       Inr (dividingLine_spec R (windowsData (mkManager 2 threeColumns))
              (expectedCurrentNumMainWindows (mkManager 2 threeColumns)))"
    by blast
  from R(1) t have "R = mkWindow 4 ''Browser'' 600 0 400 800 ''vertical''" by simp
  with x have "frame_x (frame R) = 600" "frame_y (frame R) = 0" by simp_all
  with R h d show ?thesis by blast
qed

lemma find_upt_Some:
  assumes "find P [0 ..< n] = Some i"
  shows "i < n \<and> P i \<and> (\<forall>j<i. \<not> P j)"
proof -
  from assms obtain a where a: "a < length [0 ..< n]" "P ([0 ..< n] ! a)" "i = [0 ..< n] ! a"
    "\<forall>j<a. \<not> P ([0 ..< n] ! j)"
    unfolding find_Some_iff by blast
  then have "a < n" by simp
  then have "i = a" using a(3) by simp
  with a \<open>a < n\<close> show ?thesis by auto
qed

lemma find_upt_first:
  assumes "i < n" "P i"
  shows "\<exists>j\<le>i. find P [0 ..< n] = Some j"
proof (cases "find P [0 ..< n]")
  case None
  then have "\<not> P i" using assms(1) by (auto simp: find_None_iff)
  with assms show ?thesis by simp
next
  case (Some j)
  from find_upt_Some [OF Some] assms have "j \<le> i"
    by (meson not_le_imp_less)
  with Some show ?thesis by simp
qed

lemma dividingLine_spec_le:
  "dividingLine_spec R ws m \<le> frame_x (frame R)"
proof -
  define N where "N = filter (\<lambda>w. frame_x (frame w) \<noteq> 0) ws"
  define E where "E = sort_key (\<lambda>w. - frame_x (frame w))
                   (filter (\<lambda>w. frame_x (frame w) \<le> frame_x (frame R)) N)"
  define k where "k = int (length N) - int (length E)"
  define P where "P = (\<lambda>i. frame_x (frame (E ! i)) = frame_x (frame (E ! (i + 1)))
                                  \<and> k + int i + 2 \<ge> m)"
  have spec: "dividingLine_spec R ws m =
    (if m = 1 then frame_x (frame R) else if k \<ge> m then frame_x (frame R)
     else (case find P [0 ..< length E - 1] of Some i \<Rightarrow> frame_x (frame (E ! i))
           | None \<Rightarrow> frame_x (frame R)))"
    unfolding dividingLine_spec_def N_def E_def k_def P_def Let_def by simp
  have E_le: "frame_x (frame (E ! i)) \<le> frame_x (frame R)" if "i < length E" for i
  proof -
    from that have "E ! i \<in> set E" by simp
    then show ?thesis unfolding E_def by simp
  qed
  show ?thesis
  proof (cases "find P [0 ..< length E - 1]")
    case None
    then show ?thesis unfolding spec by simp
  next
    case (Some i)
    from find_upt_Some [OF Some] have "i < length E" by linarith
    from E_le [OF this] Some show ?thesis unfolding spec by simp
  qed
qed

lemma dividingLine_spec_antitone:
  assumes "m1 < m2"
  shows "dividingLine_spec R ws m2 \<le> dividingLine_spec R ws m1
       \<or> dividingLine_spec R ws m2 = frame_x (frame R)"
proof -
  define N where "N = filter (\<lambda>w. frame_x (frame w) \<noteq> 0) ws"
  define E where "E = sort_key (\<lambda>w. - frame_x (frame w))
                   (filter (\<lambda>w. frame_x (frame w) \<le> frame_x (frame R)) N)"
  define k where "k = int (length N) - int (length E)"
  define P where "P = (\<lambda>m i. frame_x (frame (E ! i)) = frame_x (frame (E ! (i + 1)))
                                  \<and> k + int i + 2 \<ge> m)"
  have spec: "dividingLine_spec R ws m =
    (if m = 1 then frame_x (frame R) else if k \<ge> m then frame_x (frame R)
     else (case find (P m) [0 ..< length E - 1] of Some i \<Rightarrow> frame_x (frame (E ! i))
           | None \<Rightarrow> frame_x (frame R)))" for m
    unfolding dividingLine_spec_def N_def E_def k_def P_def Let_def by simp
  have sorted: "sorted (map (\<lambda>w. - frame_x (frame w)) E)"
    unfolding E_def by (rule sorted_sort_key)
  have desc: "frame_x (frame (E ! j)) \<le> frame_x (frame (E ! i))" if "i \<le> j" "j < length E" for i j
  proof -
    from sorted that have "map (\<lambda>w. - frame_x (frame w)) E ! i \<le> map (\<lambda>w. - frame_x (frame w)) E ! j"
      by (intro sorted_nth_mono) simp_all
    with that show ?thesis by simp
  qed
  show ?thesis
  proof (cases "m2 = 1 \<or> k \<ge> m2 \<or> find (P m2) [0 ..< length E - 1] = None")
    case True
    then have "dividingLine_spec R ws m2 = frame_x (frame R)"
      unfolding spec by auto
    then show ?thesis ..
  next
    case False
    then obtain i2 where i2: "find (P m2) [0 ..< length E - 1] = Some i2" and m2: "m2 \<noteq> 1" "\<not> k \<ge> m2"
      by auto
    then have s2: "dividingLine_spec R ws m2 = frame_x (frame (E ! i2))"
      unfolding spec by simp
    from find_upt_Some [OF i2] have i2_lt: "i2 < length E - 1" and P2: "P m2 i2" by simp_all
    show ?thesis
    proof (cases "m1 = 1 \<or> k \<ge> m1")
      case True
      then have "dividingLine_spec R ws m1 = frame_x (frame R)"
        unfolding spec by auto
      then show ?thesis using dividingLine_spec_le [of R ws m2] by simp
    next
      case False
      from P2 assms have "P m1 i2" unfolding P_def by simp
      from find_upt_first [of i2 "length E - 1" "P m1", OF i2_lt this] obtain i1 where
        i1: "i1 \<le> i2" "find (P m1) [0 ..< length E - 1] = Some i1" by blast
      with False have "dividingLine_spec R ws m1 = frame_x (frame (E ! i1))"
        unfolding spec by simp
      moreover have "frame_x (frame (E ! i2)) \<le> frame_x (frame (E ! i1))"
        using desc [of i1 i2] i1(1) i2_lt by linarith
      ultimately show ?thesis using s2 by simp
    qed
  qed
qed

lemma getTopRightWindow_expected [simp]:
  "getTopRightWindow (this\<lparr>expectedCurrentNumMainWindows := m\<rparr>) = getTopRightWindow this"
  by (simp add: getTopRightWindow_def cong: list.case_cong)

lemma getDividingLineXCoordinate_Inr:
  assumes "getDividingLineXCoordinate this = Inr d"
  shows "\<exists>R. getTopRightWindow this = Inr (Some R)
           \<and> d = dividingLine_spec R (windowsData this) (expectedCurrentNumMainWindows this)"
proof (cases "windowsData this = []")
  case True
  then have "getDividingLineXCoordinate this = Inl (TypeError ''frame'')"
    by (simp add: getDividingLineXCoordinate_def getTopRightWindow_def)
  with assms show ?thesis by simp
next
  case False
  from getTopRightWindow_nonempty [OF False] obtain R where
    R: "getTopRightWindow this = Inr (Some R)" by blast
  from getDividingLineXCoordinate_spec [OF R] assms R show ?thesis by simp
qed

text \<open>
  C4, as the code has it. For a fixed snapshot the dividing line for an expected count of 1
  is the largest: the line for any count is at most that one; and for counts \<open>m1 < m2\<close> the
  line for \<open>m2\<close> is at most the line for \<open>m1\<close>, unless it has fallen back to the line for
  count 1. A larger expected count moves the line to the left, not to the right.
\<close>

theorem dividing_line_antitone:
  assumes "m1 < m2"
    and "getDividingLineXCoordinate (this\<lparr>expectedCurrentNumMainWindows := m1\<rparr>) = Inr d1"
    and "getDividingLineXCoordinate (this\<lparr>expectedCurrentNumMainWindows := m2\<rparr>) = Inr d2"
    and "getDividingLineXCoordinate (this\<lparr>expectedCurrentNumMainWindows := 1\<rparr>) = Inr dR"
  shows "d2 \<le> dR \<and> (d2 \<le> d1 \<or> d2 = dR)"
proof -
  from getDividingLineXCoordinate_Inr [OF assms(2)] obtain R where
    R: "getTopRightWindow this = Inr (Some R)"
    and d1: "d1 = dividingLine_spec R (windowsData this) m1" by auto
  from getDividingLineXCoordinate_Inr [OF assms(3)] R have
    d2: "d2 = dividingLine_spec R (windowsData this) m2" by auto
  from getDividingLineXCoordinate_Inr [OF assms(4)] R have
    "dR = dividingLine_spec R (windowsData this) 1" by auto
  then have dR: "dR = frame_x (frame R)"
    by (simp add: dividingLine_spec_def)
  show ?thesis
    unfolding d1 d2 dR
    using dividingLine_spec_le [of R "windowsData this" m2]
      dividingLine_spec_antitone [OF assms(1), of R "windowsData this"]
    by blast
qed

theorem dividing_line_antitone_witness:
  "(1::int) < 2
   \<and> getDividingLineXCoordinate
        ((mkManager 2 threeColumns)\<lparr>expectedCurrentNumMainWindows := 1\<rparr>) = Inr 600
   \<and> getDividingLineXCoordinate
        ((mkManager 2 threeColumns)\<lparr>expectedCurrentNumMainWindows := 2\<rparr>) = Inr 300
   \<and> (300::int) \<le> 600 \<and> ((300::int) \<le> 600 \<or> (300::int) = 600)"
proof -
  have a: "getDividingLineXCoordinate
        ((mkManager 2 threeColumns)\<lparr>expectedCurrentNumMainWindows := 1\<rparr>) = Inr 600"
    by code_simp
  have b: "getDividingLineXCoordinate
        ((mkManager 2 threeColumns)\<lparr>expectedCurrentNumMainWindows := 2\<rparr>) = Inr 300"
    by code_simp
  have c: "(1::int) < 2" by simp
  from dividing_line_antitone [OF c a b a] a b c show ?thesis by simp
qed

text \<open>C4 as the specification words it, a line that never moves left when the expected
  count grows, fails on the three columns: raising the expected count from 1 to
  2 moves the dividing line from 600 down to 300.\<close>

theorem dividing_line_monotone_counterexample:
  "getDividingLineXCoordinate
     ((mkManager 1 threeColumns)\<lparr>expectedCurrentNumMainWindows := 1\<rparr>) = Inr 600
   \<and> getDividingLineXCoordinate
     ((mkManager 1 threeColumns)\<lparr>expectedCurrentNumMainWindows := 2\<rparr>) = Inr 300"
  by code_simp

section \<open>What a pass leaves unchanged\<close>

lemma andThen_Inr_iff:
  "andThen m f = Inr r \<longleftrightarrow> (\<exists>a. m = Inr a \<and> f a = Inr r)"
  by (cases m) auto

lemma refreshWindowsData_expected:
  assumes "refreshWindowsData Y this = Inr this'"
  shows "expectedCurrentNumMainWindows this' = expectedCurrentNumMainWindows this"
proof -
  from assms obtain a where
    "(case a of (newWindowsData, n) \<Rightarrow>
        Inr (this\<lparr>windowsData := newWindowsData, allocated := n\<rparr>)) = Inr this'"
    by (auto simp: refreshWindowsData_def andThen_Inr_iff)
  then show ?thesis by (cases a) auto
qed

lemma executeYabaiCommand_expected:
  assumes "executeYabaiCommand Y this command = Inr this'"
  shows "expectedCurrentNumMainWindows this' = expectedCurrentNumMainWindows this"
  using refreshWindowsData_expected [of Y "this\<lparr>issued := issued this @ [command]\<rparr>" this'] assms
  unfolding executeYabaiCommand_def by simp

lemma toggle_if_expected:
  assumes "(if c then executeYabaiCommand Y this command else Inr this) = Inr this'"
  shows "expectedCurrentNumMainWindows this' = expectedCurrentNumMainWindows this"
proof (cases c)
  case True
  with assms show ?thesis by (simp add: executeYabaiCommand_expected)
next
  case False
  with assms show ?thesis by simp
qed

lemma columnizeStackWindows_loop_expected:
  assumes "columnizeStackWindows_loop Y this stackWindows = Inr this'"
  shows "expectedCurrentNumMainWindows this' = expectedCurrentNumMainWindows this"
  using assms
proof (induction stackWindows arbitrary: this)
  case Nil
  then show ?case by simp
next
  case (Cons stackWindow rest)
  show ?case
  proof (cases "getUpdatedWindowData this stackWindow")
    case None
    with Cons.prems show ?thesis by simp
  next
    case (Some window)
    show ?thesis
    proof (cases "split window = ''vertical''")
      case True
      with Some Cons.prems obtain this1 where
        e: "executeYabaiCommand Y this (ToggleSplit (win_id window)) = Inr this1"
        and l: "columnizeStackWindows_loop Y this1 rest = Inr this'"
        by (simp add: andThen_Inr_iff) blast
      from Cons.IH [OF l] executeYabaiCommand_expected [OF e] show ?thesis by simp
    next
      case False
      with Some Cons.prems have "columnizeStackWindows_loop Y this rest = Inr this'"
        by simp
      then show ?thesis by (rule Cons.IH)
    qed
  qed
qed

lemma columnizeStackWindows_expected:
  assumes "columnizeStackWindows Y this = Inr this'"
  shows "expectedCurrentNumMainWindows this' = expectedCurrentNumMainWindows this"
proof -
  from assms obtain stackWindows where
    "columnizeStackWindows_loop Y this stackWindows = Inr this'"
    by (auto simp: columnizeStackWindows_def andThen_Inr_iff)
  then show ?thesis by (rule columnizeStackWindows_loop_expected)
qed

lemma createStack_loop_expected:
  assumes "createStack_loop Y this topRightWindow topLeftWindow windows = Inr this'"
  shows "expectedCurrentNumMainWindows this' = expectedCurrentNumMainWindows this"
  using assms
proof (induction windows arbitrary: this)
  case Nil
  then show ?case by simp
next
  case (Cons window rest)
  show ?case
  proof (cases "ref window = ref topRightWindow
      \<or> (case topLeftWindow of None \<Rightarrow> False | Some topLeft \<Rightarrow> ref window = ref topLeft)")
    case True
    with Cons.prems have "createStack_loop Y this topRightWindow topLeftWindow rest = Inr this'"
      by simp
    then show ?thesis by (rule Cons.IH)
  next
    case False
    show ?thesis
    proof (cases topLeftWindow)
      case None
      with False Cons.prems show ?thesis by simp
    next
      case (Some topLeft)
      with False Cons.prems obtain this1 where
        e: "executeYabaiCommand Y this (Warp (win_id window) (win_id topLeft)) = Inr this1"
        and l: "createStack_loop Y this1 topRightWindow topLeftWindow rest = Inr this'"
        by (simp add: andThen_Inr_iff) blast
      from Cons.IH [OF l] executeYabaiCommand_expected [OF e] show ?thesis by simp
    qed
  qed
qed

lemma createStack_expected:
  assumes "createStack Y this = Inr this'"
  shows "expectedCurrentNumMainWindows this' = expectedCurrentNumMainWindows this"
proof -
  from assms obtain top where
    k: "(case top of
           None \<Rightarrow> Inl (TypeError ''split'')
         | Some topRightWindow \<Rightarrow>
             andThen (if split topRightWindow = ''horizontal''
                      then executeYabaiCommand Y this (ToggleSplit (win_id topRightWindow))
                      else Inr this)
               (\<lambda>this1.
                  andThen (createStack_loop Y this1 topRightWindow (getTopLeftWindow this1)
                             (windowsData this1))
                    (\<lambda>this2. columnizeStackWindows Y this2))) = Inr this'"
    by (auto simp: createStack_def andThen_Inr_iff)
  show ?thesis
  proof (cases top)
    case None
    with k show ?thesis by simp
  next
    case (Some topRightWindow)
    with k obtain this1 this2 where
      a: "(if split topRightWindow = ''horizontal''
           then executeYabaiCommand Y this (ToggleSplit (win_id topRightWindow))
           else Inr this) = Inr this1"
      and b: "createStack_loop Y this1 topRightWindow (getTopLeftWindow this1)
                (windowsData this1) = Inr this2"
      and c: "columnizeStackWindows Y this2 = Inr this'"
      unfolding andThen_Inr_iff by (simp add: andThen_Inr_iff) blast
    from toggle_if_expected [OF a] createStack_loop_expected [OF b]
      columnizeStackWindows_expected [OF c]
    show ?thesis by simp
  qed
qed

lemma moveWindowToStack_expected:
  assumes "moveWindowToStack Y this window = Inr this'"
  shows "expectedCurrentNumMainWindows this' = expectedCurrentNumMainWindows this"
proof (cases "length (windowsData this) = 2")
  case True
  with assms have "(if split window = ''horizontal''
         then executeYabaiCommand Y this (ToggleSplit (win_id window))
         else Inr this) = Inr this'"
    unfolding moveWindowToStack_def by simp
  then show ?thesis by (rule toggle_if_expected)
next
  case False
  with assms obtain this1 where
    a: "columnizeStackWindows Y this = Inr this1"
    and b: "(case getWidestStackWindow this1 of
            None \<Rightarrow> Inr this1
          | Some stackWindow \<Rightarrow>
              andThen (executeYabaiCommand Y this1 (Warp (win_id window) (win_id stackWindow)))
                (\<lambda>this2.
                   case getUpdatedWindowData this2 window of
                     None \<Rightarrow> Inl (TypeError ''split'')
                   | Some window' \<Rightarrow>
                       if length (windowsData this2) = 2 then
                         (if split window' = ''horizontal''
                          then executeYabaiCommand Y this2 (ToggleSplit (win_id stackWindow))
                          else Inr this2)
                       else
                         (if split window' = ''vertical''
                          then executeYabaiCommand Y this2 (ToggleSplit (win_id stackWindow))
                          else Inr this2))) = Inr this'"
    unfolding moveWindowToStack_def by (simp add: andThen_Inr_iff) blast
  have "expectedCurrentNumMainWindows this' = expectedCurrentNumMainWindows this1"
  proof (cases "getWidestStackWindow this1")
    case None
    with b show ?thesis by simp
  next
    case (Some stackWindow)
    with b obtain this2 where
      e: "executeYabaiCommand Y this1 (Warp (win_id window) (win_id stackWindow)) = Inr this2"
      and k: "(case getUpdatedWindowData this2 window of
                     None \<Rightarrow> Inl (TypeError ''split'')
                   | Some window' \<Rightarrow>
                       if length (windowsData this2) = 2 then
                         (if split window' = ''horizontal''
                          then executeYabaiCommand Y this2 (ToggleSplit (win_id stackWindow))
                          else Inr this2)
                       else
                         (if split window' = ''vertical''
                          then executeYabaiCommand Y this2 (ToggleSplit (win_id stackWindow))
                          else Inr this2)) = Inr this'"
      by (simp add: andThen_Inr_iff) blast
    have "expectedCurrentNumMainWindows this' = expectedCurrentNumMainWindows this2"
    proof (cases "getUpdatedWindowData this2 window")
      case None
      with k show ?thesis by simp
    next
      case (Some window')
      with k show ?thesis
        by (cases "length (windowsData this2) = 2") (simp_all add: toggle_if_expected)
    qed
    with executeYabaiCommand_expected [OF e] show ?thesis by simp
  qed
  with columnizeStackWindows_expected [OF a] show ?thesis by simp
qed

lemma moveWindowToMain_expected:
  assumes "moveWindowToMain Y this window = Inr this'"
  shows "expectedCurrentNumMainWindows this' = expectedCurrentNumMainWindows this"
proof (cases "getWidestMainWindow this")
  case (Inl e)
  with assms show ?thesis by (simp add: moveWindowToMain_def)
next
  case (Inr widestMain)
  show ?thesis
  proof (cases widestMain)
    case None
    with Inr assms show ?thesis by (simp add: moveWindowToMain_def)
  next
    case (Some mainWindow)
    with Inr assms obtain this1 where
      e: "executeYabaiCommand Y this (Warp (win_id window) (win_id mainWindow)) = Inr this1"
      and k1: "(case getUpdatedWindowData this1 window of
                  None \<Rightarrow> Inl (TypeError ''split'')
                | Some window' \<Rightarrow>
                    if split window' = ''vertical''
                    then executeYabaiCommand Y this1 (ToggleSplit (win_id mainWindow))
                    else Inr this1) = Inr this'"
      by (simp add: moveWindowToMain_def andThen_Inr_iff) blast
    have "expectedCurrentNumMainWindows this' = expectedCurrentNumMainWindows this1"
    proof (cases "getUpdatedWindowData this1 window")
      case None
      with k1 show ?thesis by simp
    next
      case (Some window')
      with k1 show ?thesis by (simp add: toggle_if_expected)
    qed
    with executeYabaiCommand_expected [OF e] show ?thesis by simp
  qed
qed

lemma updateWindows_tooMany_expected:
  assumes "updateWindows_tooMany Y this mainWindows cur T = Inr (this', cur')"
  shows "expectedCurrentNumMainWindows this' = expectedCurrentNumMainWindows this"
  using assms
proof (induction Y this mainWindows cur T rule: updateWindows_tooMany.induct)
  case (1 Y this mainWindows cur T)
  show ?case
  proof (cases "cur > T")
    case True
    show ?thesis
    proof (cases "pop mainWindows")
      case None
      with True "1.prems" show ?thesis
        by (subst (asm) updateWindows_tooMany.simps) simp
    next
      case (Some popped)
      obtain mainWindow rest where popped: "popped = (mainWindow, rest)"
        by (cases popped)
      with True Some "1.prems" obtain this1 where
        m: "moveWindowToStack Y this mainWindow = Inr this1"
        and r: "updateWindows_tooMany Y this1 rest (cur - 1) T = Inr (this', cur')"
        by (subst (asm) updateWindows_tooMany.simps) (simp add: andThen_Inr_iff, blast)
      from "1.IH" [OF True Some popped [symmetric] r] moveWindowToStack_expected [OF m]
      show ?thesis by simp
    qed
  next
    case False
    with "1.prems" show ?thesis
      by (subst (asm) updateWindows_tooMany.simps) simp
  qed
qed

lemma updateWindows_notEnough_expected:
  assumes "updateWindows_notEnough Y this stackWindows cur T = Inr this'"
  shows "expectedCurrentNumMainWindows this' = expectedCurrentNumMainWindows this"
  using assms
proof (induction Y this stackWindows cur T rule: updateWindows_notEnough.induct)
  case (1 Y this stackWindows cur T)
  show ?case
  proof (cases "cur < T")
    case True
    show ?thesis
    proof (cases "pop stackWindows")
      case None
      with True "1.prems" show ?thesis
        by (subst (asm) updateWindows_notEnough.simps) simp
    next
      case (Some popped)
      obtain stackWindow rest where popped: "popped = (stackWindow, rest)"
        by (cases popped)
      with True Some "1.prems" obtain this1 where
        m: "moveWindowToMain Y this stackWindow = Inr this1"
        and r: "updateWindows_notEnough Y this1 rest (cur + 1) T = Inr this'"
        by (subst (asm) updateWindows_notEnough.simps) (simp add: andThen_Inr_iff, blast)
      from "1.IH" [OF True Some popped [symmetric] r] moveWindowToMain_expected [OF m]
      show ?thesis by simp
    qed
  next
    case False
    with "1.prems" show ?thesis
      by (subst (asm) updateWindows_notEnough.simps) simp
  qed
qed

lemma updateWindows_middle_expected_aux:
  assumes "updateWindows_middle Y this cur T = Some r"
  shows "\<forall>this' cur'. r = Inr (this', cur') \<longrightarrow>
          expectedCurrentNumMainWindows this' = expectedCurrentNumMainWindows this"
proof (rule updateWindows_middle.raw_induct
    [where P = "\<lambda>Y this cur T r. \<forall>this' cur'. r = Inr (this', cur') \<longrightarrow>
          expectedCurrentNumMainWindows this' = expectedCurrentNumMainWindows this",
     OF _ assms], goal_cases)
  case prems: (1 middle Y this cur T r)
  show ?case
  proof (intro allI impI)
    fix this' cur'
    assume r: "r = Inr (this', cur')"
    from prems(2) [unfolded r] consider
        (stop) "this' = this"
      | (main) middleWindow this1 where "moveWindowToMain Y this middleWindow = Inr this1"
          "middle Y this1 (cur + 1) T = Some (Inr (this', cur'))"
      | (stack) middleWindow this1 where "moveWindowToStack Y this middleWindow = Inr this1"
          "middle Y this1 cur T = Some (Inr (this', cur'))"
      by (auto split: sum.splits list.splits if_splits)
    then show "expectedCurrentNumMainWindows this' = expectedCurrentNumMainWindows this"
    proof cases
      case stop
      then show ?thesis by simp
    next
      case main
      from prems(1) [OF main(2)] moveWindowToMain_expected [OF main(1)]
      show ?thesis by simp
    next
      case stack
      from prems(1) [OF stack(2)] moveWindowToStack_expected [OF stack(1)]
      show ?thesis by simp
    qed
  qed
qed

lemma updateWindows_middle_expected:
  assumes "updateWindows_middle Y this cur T = Some (Inr (this', cur'))"
  shows "expectedCurrentNumMainWindows this' = expectedCurrentNumMainWindows this"
  using updateWindows_middle_expected_aux [OF assms] by simp

lemma updateWindows_rebalance_expected:
  assumes "updateWindows_rebalance Y this numWindows T = Some (Inr this')"
  shows "expectedCurrentNumMainWindows this' = expectedCurrentNumMainWindows this"
proof (cases "numWindows > 2")
  case False
  with assms show ?thesis by (simp add: updateWindows_rebalance_def)
next
  case True
  show ?thesis
  proof (cases "getMainWindows this")
    case (Inl e)
    with True assms show ?thesis by (simp add: updateWindows_rebalance_def)
  next
    case (Inr mainWindows)
    define first where "first =
      (if int (length mainWindows) > T
       then updateWindows_tooMany Y this
              (sortBy (\<lambda>window1 window2.
                         if frame_y (frame window1) \<noteq> frame_y (frame window2)
                         then frame_y (frame window1) - frame_y (frame window2)
                         else frame_x (frame window1) - frame_x (frame window2))
                 mainWindows)
              (int (length mainWindows)) T
       else Inr (this, int (length mainWindows)))"
    have unfold: "updateWindows_rebalance Y this numWindows T =
      (case first of
         Inl e \<Rightarrow> Some (Inl e)
       | Inr (this1, curNumMainWindows1) \<Rightarrow>
           (case updateWindows_middle Y this1 curNumMainWindows1 T of
              None \<Rightarrow> None
            | Some (Inl e) \<Rightarrow> Some (Inl e)
            | Some (Inr (this2, curNumMainWindows2)) \<Rightarrow>
                Some (updateWindows_notEnough Y this2
                        (sortBy (\<lambda>window1 window2.
                                   if frame_x (frame window1) \<noteq> frame_x (frame window2)
                                   then frame_x (frame window2) - frame_x (frame window1)
                                   else frame_y (frame window2) - frame_y (frame window1))
                           (getStackWindows this2))
                        curNumMainWindows2 T)))"
      unfolding updateWindows_rebalance_def first_def using True Inr by simp
    show ?thesis
    proof (cases first)
      case (Inl e)
      with assms unfold show ?thesis by simp
    next
      case first: (Inr p)
      obtain this1 cur1 where p: "p = (this1, cur1)" by (cases p)
      have e1: "expectedCurrentNumMainWindows this1 = expectedCurrentNumMainWindows this"
      proof (cases "int (length mainWindows) > T")
        case True
        with first p show ?thesis
          unfolding first_def by (simp add: updateWindows_tooMany_expected)
      next
        case False
        with first p show ?thesis unfolding first_def by simp
      qed
      show ?thesis
      proof (cases "updateWindows_middle Y this1 cur1 T")
        case None
        with assms unfold first p show ?thesis by simp
      next
        case (Some r)
        show ?thesis
        proof (cases r)
          case (Inl e)
          with assms unfold first p Some show ?thesis by simp
        next
          case r: (Inr q)
          obtain this2 cur2 where q: "q = (this2, cur2)" by (cases q)
          from assms unfold first p Some r q have
            "updateWindows_notEnough Y this2
               (sortBy (\<lambda>window1 window2.
                          if frame_x (frame window1) \<noteq> frame_x (frame window2)
                          then frame_x (frame window2) - frame_x (frame window1)
                          else frame_y (frame window2) - frame_y (frame window1))
                  (getStackWindows this2))
               cur2 T = Inr this'"
            by simp
          from updateWindows_notEnough_expected [OF this]
            updateWindows_middle_expected [of Y this1 cur1 T this2 cur2] Some r q e1
          show ?thesis by simp
        qed
      qed
    qed
  qed
qed

lemma updateWindows_ensureStack_expected:
  assumes "updateWindows_ensureStack (createStack Y) this numWindows T = Inr this'"
  shows "expectedCurrentNumMainWindows this' = expectedCurrentNumMainWindows this"
  using assms unfolding updateWindows_ensureStack_def
  by (auto simp: andThen_Inr_iff split: if_splits dest: createStack_expected)

lemma updateWindows_finish_Inr:
  assumes "updateWindows_finish reason this T = Inr this'"
  shows "isValidLayout this (Some T) = Inr Valid
       \<and> this' = this\<lparr>expectedCurrentNumMainWindows := T\<rparr>"
  using assms unfolding updateWindows_finish_def
  by (auto split: sum.splits validity.splits)

lemma updateWindows_valid:
  assumes "isValidLayout this (Some T) = Inr Valid"
  shows "updateWindows Y this T = Some (Inr this)"
  using assms by (simp add: updateWindows_def updateWindows_using_def)

lemma updateWindows_success:
  assumes "updateWindows Y this T = Some (Inr this')"
  shows "(isValidLayout this (Some T) = Inr Valid \<and> this' = this)
       \<or> (\<exists>reason this2.
             isValidLayout this (Some T) = Inr (Invalid reason)
           \<and> expectedCurrentNumMainWindows this2 = expectedCurrentNumMainWindows this
           \<and> isValidLayout this2 (Some T) = Inr Valid
           \<and> this' = this2\<lparr>expectedCurrentNumMainWindows := T\<rparr>)"
proof (cases "isValidLayout this (Some T)")
  case (Inl e)
  with assms show ?thesis by (simp add: updateWindows_def updateWindows_using_def)
next
  case (Inr v)
  show ?thesis
  proof (cases v)
    case Valid
    with Inr assms show ?thesis by (simp add: updateWindows_def updateWindows_using_def)
  next
    case (Invalid reason)
    with Inr assms have u: "(case updateWindows_ensureStack (createStack Y) this
                (int (length (windowsData this))) T of
          Inl e \<Rightarrow> Some (Inl e)
        | Inr this1 \<Rightarrow>
            (case updateWindows_rebalance Y this1 (int (length (windowsData this))) T of
               None \<Rightarrow> None
             | Some (Inl e) \<Rightarrow> Some (Inl e)
             | Some (Inr this2) \<Rightarrow> Some (updateWindows_finish reason this2 T)))
        = Some (Inr this')"
      by (simp add: updateWindows_def updateWindows_using_def Let_def)
    then obtain this1 where
      a: "updateWindows_ensureStack (createStack Y) this (int (length (windowsData this))) T
            = Inr this1"
      by (cases "updateWindows_ensureStack (createStack Y) this
                   (int (length (windowsData this))) T") simp_all
    with u obtain this2 where
      b: "updateWindows_rebalance Y this1 (int (length (windowsData this))) T
            = Some (Inr this2)"
      and c: "updateWindows_finish reason this2 T = Inr this'"
      by (simp split: option.splits sum.splits)
    from updateWindows_ensureStack_expected [OF a] updateWindows_rebalance_expected [OF b]
    have "expectedCurrentNumMainWindows this2 = expectedCurrentNumMainWindows this" by simp
    with updateWindows_finish_Inr [OF c] Inr Invalid show ?thesis by blast
  qed
qed

section \<open>A valid layout stays valid when the expected count becomes the target\<close>

lemma isValidLayout_Inr_nonempty:
  assumes "isValidLayout this props = Inr v"
  shows "windowsData this \<noteq> []"
proof
  assume "windowsData this = []"
  then have "getMainWindows this = Inl (TypeError ''frame'')"
    by (simp add: getMainWindows_def getDividingLineXCoordinate_def getTopRightWindow_def)
  with assms show False by (simp add: isValidLayout_def)
qed





section \<open>Calling the rebalancer again\<close>




text \<open>
  C10. On the already-valid path \<^verbatim>\<open>updateWindows\<close> returns a manager with the expected count
  it had, not the target. When a pass that started on an invalid layout returns, the
  manager it returns is the one that passed the last validation, which still had the old
  expected count, with the expected count set to the target.
\<close>

theorem expected_count_set_last:
  "(isValidLayout this (Some T) = Inr Valid \<longrightarrow>
      (\<exists>this'. updateWindows Y this T = Some (Inr this')
         \<and> expectedCurrentNumMainWindows this' = expectedCurrentNumMainWindows this))
   \<and> (updateWindows Y this T = Some (Inr this')
        \<and> isValidLayout this (Some T) \<noteq> Inr Valid \<longrightarrow>
      (\<exists>this2. expectedCurrentNumMainWindows this2 = expectedCurrentNumMainWindows this
         \<and> isValidLayout this2 (Some T) = Inr Valid
         \<and> this' = this2\<lparr>expectedCurrentNumMainWindows := T\<rparr>
         \<and> expectedCurrentNumMainWindows this' = T))"
proof (rule conjI; rule impI)
  assume "isValidLayout this (Some T) = Inr Valid"
  then have "updateWindows Y this T = Some (Inr this)" by (rule updateWindows_valid)
  then show "\<exists>this'. updateWindows Y this T = Some (Inr this')
         \<and> expectedCurrentNumMainWindows this' = expectedCurrentNumMainWindows this"
    by simp
next
  assume "updateWindows Y this T = Some (Inr this')
        \<and> isValidLayout this (Some T) \<noteq> Inr Valid"
  then have r: "updateWindows Y this T = Some (Inr this')"
    and n: "isValidLayout this (Some T) \<noteq> Inr Valid" by simp_all
  from updateWindows_success [OF r] n obtain this2 where
    "expectedCurrentNumMainWindows this2 = expectedCurrentNumMainWindows this"
    "isValidLayout this2 (Some T) = Inr Valid"
    "this' = this2\<lparr>expectedCurrentNumMainWindows := T\<rparr>"
    by (elim disjE conjE exE) simp_all
  then show "\<exists>this2. expectedCurrentNumMainWindows this2 = expectedCurrentNumMainWindows this
         \<and> isValidLayout this2 (Some T) = Inr Valid
         \<and> this' = this2\<lparr>expectedCurrentNumMainWindows := T\<rparr>
         \<and> expectedCurrentNumMainWindows this' = T"
    by (intro exI [of _ this2]) simp
qed

theorem expected_count_set_last_witness:
  "isValidLayout (mkManager 1 masterStack) (Some 2) = Inr Valid
   \<and> (\<exists>this'. updateWindows (steady masterStack) (mkManager 1 masterStack) 2 = Some (Inr this')
         \<and> expectedCurrentNumMainWindows this'
             = expectedCurrentNumMainWindows (mkManager 1 masterStack))
   \<and> updateWindows turning (mkManager 2 rows) 1 = Some (Inr (turned 1))
   \<and> isValidLayout (mkManager 2 rows) (Some 1) \<noteq> Inr Valid
   \<and> (\<exists>this2. expectedCurrentNumMainWindows this2
                 = expectedCurrentNumMainWindows (mkManager 2 rows)
         \<and> isValidLayout this2 (Some 1) = Inr Valid
         \<and> turned 1 = this2\<lparr>expectedCurrentNumMainWindows := 1\<rparr>
         \<and> expectedCurrentNumMainWindows (turned 1) = 1)"
proof -
  have a: "isValidLayout (mkManager 1 masterStack) (Some 2) = Inr Valid"
    by code_simp
  have b: "updateWindows turning (mkManager 2 rows) 1 = Some (Inr (turned 1))"
    by code_simp
  have c: "isValidLayout (mkManager 2 rows) (Some 1) \<noteq> Inr Valid"
    by code_simp
  from expected_count_set_last
    [where this = "mkManager 1 masterStack" and T = 2 and Y = "steady masterStack"] a
  have d: "\<exists>this'. updateWindows (steady masterStack) (mkManager 1 masterStack) 2 = Some (Inr this')
         \<and> expectedCurrentNumMainWindows this'
             = expectedCurrentNumMainWindows (mkManager 1 masterStack)"
    by simp
  from expected_count_set_last
    [where this = "mkManager 2 rows" and T = 1 and Y = turning and this' = "turned 1"] b c
  have e: "\<exists>this2. expectedCurrentNumMainWindows this2
                 = expectedCurrentNumMainWindows (mkManager 2 rows)
         \<and> isValidLayout this2 (Some 1) = Inr Valid
         \<and> turned 1 = this2\<lparr>expectedCurrentNumMainWindows := 1\<rparr>
         \<and> expectedCurrentNumMainWindows (turned 1) = 1"
    by simp
  from a b c d e show ?thesis by (intro conjI)
qed

text \<open>
  C7. When a pass that started on an invalid layout reaches the last validation with the
  manager \<open>this2\<close>: if that validation reports valid, \<^verbatim>\<open>updateWindows\<close> returns \<open>this2\<close> with
  the expected count set to the target; if it reports invalid, \<^verbatim>\<open>updateWindows\<close> throws the
  error that the layout is invalid at the end.
\<close>

theorem updateWindows_final_validation:
  assumes "isValidLayout this (Some T) = Inr (Invalid reason)"
    and "updateWindows_ensureStack (createStack Y) this (int (length (windowsData this))) T
           = Inr this1"
    and "updateWindows_rebalance Y this1 (int (length (windowsData this))) T = Some (Inr this2)"
  shows "(isValidLayout this2 (Some T) = Inr Valid \<longrightarrow>
            updateWindows Y this T
              = Some (Inr (this2\<lparr>expectedCurrentNumMainWindows := T\<rparr>)))
       \<and> ((\<exists>r. isValidLayout this2 (Some T) = Inr (Invalid r)) \<longrightarrow>
            updateWindows Y this T = Some (Inl (InvalidLayoutAtEnd reason)))"
proof -
  have u: "updateWindows Y this T = Some (updateWindows_finish reason this2 T)"
    using assms by (simp add: updateWindows_def updateWindows_using_def)
  show ?thesis
    unfolding u updateWindows_finish_def by auto
qed

theorem updateWindows_final_validation_witness:
  "isValidLayout (mkManager 2 rows) (Some 1) = Inr (Invalid (MainCountMismatch 2 2))
   \<and> updateWindows_ensureStack (createStack turning) (mkManager 2 rows)
        (int (length (windowsData (mkManager 2 rows)))) 1 = Inr (turned 2)
   \<and> updateWindows_rebalance turning (turned 2)
        (int (length (windowsData (mkManager 2 rows)))) 1 = Some (Inr (turned 2))
   \<and> isValidLayout (turned 2) (Some 1) = Inr Valid
   \<and> updateWindows turning (mkManager 2 rows) 1
       = Some (Inr ((turned 2)\<lparr>expectedCurrentNumMainWindows := 1\<rparr>))
   \<and> isValidLayout (mkManager 1 fullScreen) (Some 2) = Inr (Invalid (MainCountMismatch 1 1))
   \<and> updateWindows_ensureStack (createStack (steady fullScreen)) (mkManager 1 fullScreen)
        (int (length (windowsData (mkManager 1 fullScreen)))) 2 = Inr (mkManager 1 fullScreen)
   \<and> updateWindows_rebalance (steady fullScreen) (mkManager 1 fullScreen)
        (int (length (windowsData (mkManager 1 fullScreen)))) 2
       = Some (Inr (mkManager 1 fullScreen))
   \<and> (\<exists>r. isValidLayout (mkManager 1 fullScreen) (Some 2) = Inr (Invalid r))
   \<and> updateWindows (steady fullScreen) (mkManager 1 fullScreen) 2
       = Some (Inl (InvalidLayoutAtEnd (MainCountMismatch 1 1)))"
proof -
  have a1: "isValidLayout (mkManager 2 rows) (Some 1) = Inr (Invalid (MainCountMismatch 2 2))"
    by code_simp
  have a2: "updateWindows_ensureStack (createStack turning) (mkManager 2 rows)
        (int (length (windowsData (mkManager 2 rows)))) 1 = Inr (turned 2)"
    by code_simp
  have a3: "updateWindows_rebalance turning (turned 2)
        (int (length (windowsData (mkManager 2 rows)))) 1 = Some (Inr (turned 2))"
    by code_simp
  have a4: "isValidLayout (turned 2) (Some 1) = Inr Valid"
    by code_simp
  have b1: "isValidLayout (mkManager 1 fullScreen) (Some 2)
              = Inr (Invalid (MainCountMismatch 1 1))"
    by code_simp
  have b2: "updateWindows_ensureStack (createStack (steady fullScreen)) (mkManager 1 fullScreen)
        (int (length (windowsData (mkManager 1 fullScreen)))) 2 = Inr (mkManager 1 fullScreen)"
    by code_simp
  have b3: "updateWindows_rebalance (steady fullScreen) (mkManager 1 fullScreen)
        (int (length (windowsData (mkManager 1 fullScreen)))) 2
       = Some (Inr (mkManager 1 fullScreen))"
    by code_simp
  have b4: "\<exists>r. isValidLayout (mkManager 1 fullScreen) (Some 2) = Inr (Invalid r)"
    using b1 by blast
  from updateWindows_final_validation [OF a1 a2 a3] a4
  have a5: "updateWindows turning (mkManager 2 rows) 1
       = Some (Inr ((turned 2)\<lparr>expectedCurrentNumMainWindows := 1\<rparr>))"
    by simp
  from updateWindows_final_validation [OF b1 b2 b3] b4
  have b5: "updateWindows (steady fullScreen) (mkManager 1 fullScreen) 2
       = Some (Inl (InvalidLayoutAtEnd (MainCountMismatch 1 1)))"
    by blast
  from a1 a2 a3 a4 a5 b1 b2 b3 b4 b5 show ?thesis by (intro conjI)
qed

section \<open>When the stack is created\<close>

lemma updateWindows_ensureStack_eq:
  assumes "getTopRightWindow this = Inr (Some R)"
  shows "updateWindows_ensureStack createStack' this numWindows T =
           (if T \<noteq> numWindows \<and> frame_x (frame R) = 0 then createStack' this else Inr this)"
  by (simp add: updateWindows_ensureStack_def doesStackExist_def assms)

text \<open>
  The guard of \<^verbatim>\<open>createStack\<close> as it is written. In a pass that started on an invalid
  layout, an error thrown by \<^verbatim>\<open>createStack\<close> on the manager always becomes the error of
  \<^verbatim>\<open>updateWindows\<close>, that is, \<^verbatim>\<open>createStack\<close> is called first of all, exactly when the target
  differs from the number of windows and the top-right window has \<open>frame.x = 0\<close>. For a
  target of at most the number of windows this is the condition of the specification, a
  target below the number of windows.
\<close>

lemma updateWindows_createStack_guard:
  assumes "isValidLayout this (Some T) = Inr (Invalid reason)"
  shows "(\<forall>createStack' e. createStack' this = Inl e \<longrightarrow>
            updateWindows_using createStack' Y this T = Some (Inl e))
       \<longleftrightarrow> (T \<noteq> int (length (windowsData this))
            \<and> (\<exists>R. getTopRightWindow this = Inr (Some R)
                  \<and> R \<in> set (windowsData this)
                  \<and> (\<forall>w\<in>set (windowsData this). frame_y (frame R) \<le> frame_y (frame w))
                  \<and> (\<forall>w\<in>set (windowsData this).
                        frame_y (frame w) = frame_y (frame R) \<longrightarrow>
                        frame_x (frame w) \<le> frame_x (frame R))
                  \<and> frame_x (frame R) = 0))"
proof -
  from getTopRightWindow_nonempty [OF isValidLayout_Inr_nonempty [OF assms]] obtain R where
    R: "getTopRightWindow this = Inr (Some R)" by blast
  note top = getTopRightWindow_Some [OF R]
  define called where
    "called \<longleftrightarrow> T \<noteq> int (length (windowsData this)) \<and> frame_x (frame R) = 0"
  have u: "updateWindows_using createStack' Y this T =
      (case (if called then createStack' this else Inr this) of
         Inl e \<Rightarrow> Some (Inl e)
       | Inr this1 \<Rightarrow>
           (case updateWindows_rebalance Y this1 (int (length (windowsData this))) T of
              None \<Rightarrow> None
            | Some (Inl e) \<Rightarrow> Some (Inl e)
            | Some (Inr this2) \<Rightarrow> Some (updateWindows_finish reason this2 T)))"
    for createStack'
    unfolding updateWindows_using_def called_def
    by (simp add: assms updateWindows_ensureStack_eq [OF R] Let_def)
  have rhs: "(T \<noteq> int (length (windowsData this))
            \<and> (\<exists>R. getTopRightWindow this = Inr (Some R)
                  \<and> R \<in> set (windowsData this)
                  \<and> (\<forall>w\<in>set (windowsData this). frame_y (frame R) \<le> frame_y (frame w))
                  \<and> (\<forall>w\<in>set (windowsData this).
                        frame_y (frame w) = frame_y (frame R) \<longrightarrow>
                        frame_x (frame w) \<le> frame_x (frame R))
                  \<and> frame_x (frame R) = 0))
          \<longleftrightarrow> called"
    unfolding called_def using R top by simp
  show ?thesis
    unfolding rhs
  proof
    assume all: "\<forall>createStack' e. createStack' this = Inl e \<longrightarrow>
            updateWindows_using createStack' Y this T = Some (Inl e)"
    show called
    proof (rule ccontr)
      assume "\<not> called"
      then have same: "updateWindows_using (\<lambda>_. Inl CommandFailed) Y this T
                     = updateWindows_using (\<lambda>_. Inl (TypeError [])) Y this T"
        unfolding u by simp
      from all have "updateWindows_using (\<lambda>_. Inl CommandFailed) Y this T
                       = Some (Inl CommandFailed)"
        by simp
      moreover from all have "updateWindows_using (\<lambda>_. Inl (TypeError [])) Y this T
                       = Some (Inl (TypeError []))"
        by simp
      ultimately show False using same by simp
    qed
  next
    assume called
    then show "\<forall>createStack' e. createStack' this = Inl e \<longrightarrow>
            updateWindows_using createStack' Y this T = Some (Inl e)"
      unfolding u by simp
  qed
qed

text \<open>
  C6 fails in the code when the target exceeds the number of windows. With the two rows
  and a target of 3 no stack is required, since 3 is not below the number of windows, yet
  \<^verbatim>\<open>createStack\<close> is called: an error it throws is the error of \<^verbatim>\<open>updateWindows\<close>, and the
  real \<^verbatim>\<open>createStack\<close> sends two commands to yabai before the pass ends with the error of
  an invalid layout. The guard compares with \<^verbatim>\<open>!==\<close> where the stack is required only for a
  target below the number of windows.
\<close>

theorem createStack_called_above_window_count:
  "isValidLayout (mkManager 1 rows) (Some 3) = Inr (Invalid (MainCountMismatch 2 1))
   \<and> \<not> 3 < int (length (windowsData (mkManager 1 rows)))
   \<and> updateWindows_using failingCreateStack turning (mkManager 1 rows) 3
       = Some (Inl CommandFailed)
   \<and> updateWindows_ensureStack (createStack turning) (mkManager 1 rows)
        (int (length (windowsData (mkManager 1 rows)))) 3 = Inr (turned 1)
   \<and> issued (turned 1) = [ToggleSplit 1, Warp 2 1]
   \<and> updateWindows turning (mkManager 1 rows) 3
       = Some (Inl (InvalidLayoutAtEnd (MainCountMismatch 2 1)))"
  by code_simp

section \<open>Pulling windows from the stack\<close>

lemma pop_snoc [simp]: "pop (xs @ [x]) = Some (x, xs)"
  by (simp add: pop_def)

lemma pop_Nil [simp]: "pop [] = None"
  by (simp add: pop_def)

text \<open>
  C9. When the third loop needs more iterations than there are stack windows, it moves
  every stack window, as the loop with just enough iterations does, and then fails: an
  error of one of the moves, or else the type error of reading \<^verbatim>\<open>app\<close> of the undefined
  window that \<^verbatim>\<open>pop\<close> returned. It never returns.
\<close>

theorem updateWindows_notEnough_overrun:
  assumes "cur + int (length stackWindows) < T"
  shows "updateWindows_notEnough Y this stackWindows cur T =
           (case updateWindows_notEnough Y this stackWindows cur
                   (cur + int (length stackWindows)) of
              Inl e \<Rightarrow> Inl e
            | Inr this' \<Rightarrow> Inl (TypeError ''app''))"
  using assms
proof (induction stackWindows arbitrary: this cur rule: rev_induct)
  case Nil
  then have "cur < T" by simp
  then have "updateWindows_notEnough Y this [] cur T = Inl (TypeError ''app'')"
    by (subst updateWindows_notEnough.simps) simp
  moreover have "updateWindows_notEnough Y this [] cur (cur + int (length ([]::window list)))
                   = Inr this"
    by (subst updateWindows_notEnough.simps) simp
  ultimately show ?case by simp
next
  case (snoc stackWindow rest)
  from snoc.prems have lt: "cur < T" and lt': "cur < cur + int (length (rest @ [stackWindow]))"
    and more: "(cur + 1) + int (length rest) < T"
    by simp_all
  have target: "cur + int (length (rest @ [stackWindow])) = (cur + 1) + int (length rest)"
    by simp
  have l: "updateWindows_notEnough Y this (rest @ [stackWindow]) cur T =
       andThen (moveWindowToMain Y this stackWindow)
         (\<lambda>this'. updateWindows_notEnough Y this' rest (cur + 1) T)"
    using lt by (subst updateWindows_notEnough.simps) simp
  have r: "updateWindows_notEnough Y this (rest @ [stackWindow]) cur
             (cur + int (length (rest @ [stackWindow]))) =
       andThen (moveWindowToMain Y this stackWindow)
         (\<lambda>this'. updateWindows_notEnough Y this' rest (cur + 1)
                     ((cur + 1) + int (length rest)))"
    using lt' unfolding target by (subst updateWindows_notEnough.simps) simp
  show ?case
  proof (cases "moveWindowToMain Y this stackWindow")
    case (Inl e)
    then show ?thesis unfolding l r by simp
  next
    case (Inr this1)
    from snoc.IH [OF more, of this1] Inr show ?thesis unfolding l r by simp
  qed
qed

theorem updateWindows_notEnough_overrun_witness:
  "2 + int (length (getStackWindows (mkManager 2 masterStack))) < 4
   \<and> updateWindows_notEnough (steady masterStack) (mkManager 2 masterStack)
        (getStackWindows (mkManager 2 masterStack)) 2 4 = Inl (TypeError ''app'')
   \<and> updateWindows (steady masterStack) (mkManager 2 masterStack) 4
       = Some (Inl (TypeError ''app''))"
proof -
  have u: "updateWindows (steady masterStack) (mkManager 2 masterStack) 4
       = Some (Inl (TypeError ''app''))"
    by code_simp
  have h: "2 + int (length (getStackWindows (mkManager 2 masterStack))) < 4"
    by code_simp
  have e: "(case updateWindows_notEnough (steady masterStack) (mkManager 2 masterStack)
                   (getStackWindows (mkManager 2 masterStack)) 2
                   (2 + int (length (getStackWindows (mkManager 2 masterStack)))) of
              Inl e \<Rightarrow> Inl e
            | Inr this' \<Rightarrow> Inl (TypeError ''app'')) = (Inl (TypeError ''app'') :: error + wm)"
    by code_simp
  from updateWindows_notEnough_overrun [OF h, of "steady masterStack" "mkManager 2 masterStack"]
    e h u show ?thesis by simp
qed

section \<open>A pass that never ends\<close>

lemma updateWindows_middle_stuck_aux:
  assumes "updateWindows_middle Y' this' cur' T' = Some r"
    and "getMiddleWindows this = Inr (window # rest)"
    and "\<not> cur < T"
    and "moveWindowToStack Y this window = Inr this"
  shows "\<not> (Y' = Y \<and> this' = this \<and> cur' = cur \<and> T' = T)"
proof (rule updateWindows_middle.raw_induct
    [where P = "\<lambda>Y' this' cur' T' r. \<not> (Y' = Y \<and> this' = this \<and> cur' = cur \<and> T' = T)",
     OF _ assms(1)], goal_cases)
  case prems: (1 middle Y' this' cur' T' r)
  show ?case
  proof
    assume "Y' = Y \<and> this' = this \<and> cur' = cur \<and> T' = T"
    with prems(2) assms(2-4) have "middle Y this cur T = Some r" by simp
    from prems(1) [OF this] show False by simp
  qed
qed

lemma updateWindows_middle_stuck:
  assumes "getMiddleWindows this = Inr (window # rest)"
    and "\<not> cur < T"
    and "moveWindowToStack Y this window = Inr this"
  shows "updateWindows_middle Y this cur T = None"
proof (cases "updateWindows_middle Y this cur T")
  case None
  then show ?thesis .
next
  case (Some r)
  from updateWindows_middle_stuck_aux [OF Some assms] show ?thesis by simp
qed

text \<open>
  C2 fails on the padded screen, three windows and a target of 2, whatever yabai answers:
  the window on the left is a middle window, there are already two main windows, and
  \<^verbatim>\<open>moveWindowToStack\<close> returns without a command because no window has \<open>x = 0\<close>. The second
  loop of \<^verbatim>\<open>updateWindows\<close> finds the same middle window again, for ever.
\<close>

theorem updateWindows_never_returns:
  "length (windowsData (mkManager 2 padded)) = 3
   \<and> updateWindows Y (mkManager 2 padded) 2 = None"
proof (rule conjI)
  show "length (windowsData (mkManager 2 padded)) = 3"
    by code_simp
next
  have v: "isValidLayout (mkManager 2 padded) (Some 2)
             = Inr (Invalid (MiddleWindowDetected ''Notes''))"
    by code_simp
  have n: "int (length (windowsData (mkManager 2 padded))) = 3"
    by code_simp
  have t: "getTopRightWindow (mkManager 2 padded)
             = Inr (Some (mkWindow 2 ''Editor'' 510 10 480 385 ''horizontal''))"
    by code_simp
  have s: "updateWindows_ensureStack (createStack Y) (mkManager 2 padded) 3 2
             = Inr (mkManager 2 padded)"
    unfolding updateWindows_ensureStack_eq [OF t] by code_simp
  have m: "getMainWindows (mkManager 2 padded) = Inr (tl padded)"
    by code_simp
  have l: "length padded = 3"
    by (simp add: padded_def)
  have i: "getMiddleWindows (mkManager 2 padded)
             = Inr [mkWindow 1 ''Notes'' 10 10 490 780 ''horizontal'']"
    by code_simp
  have c: "columnizeStackWindows Y (mkManager 2 padded) = Inr (mkManager 2 padded)"
    by (simp add: columnizeStackWindows_def isMainWindow_def)
       code_simp
  have w: "getWidestStackWindow (mkManager 2 padded) = None"
    by code_simp
  have k: "length (windowsData (mkManager 2 padded)) \<noteq> 2"
    by code_simp
  have p: "moveWindowToStack Y (mkManager 2 padded)
             (mkWindow 1 ''Notes'' 10 10 490 780 ''horizontal'') = Inr (mkManager 2 padded)"
    by (simp add: moveWindowToStack_def k c w)
  have "updateWindows_middle Y (mkManager 2 padded) 2 2 = None"
    by (rule updateWindows_middle_stuck [OF i _ p]) simp
  then have "updateWindows_rebalance Y (mkManager 2 padded) 3 2 = None"
    by (simp add: updateWindows_rebalance_def m l)
  then show "updateWindows Y (mkManager 2 padded) 2 = None"
    by (simp add: updateWindows_def updateWindows_using_def v n s)
qed

section \<open>Errors at the top level\<close>

text \<open>
  C8. \<^verbatim>\<open>handleMasterError\<close> writes the information line for an error with the code
  \<^verbatim>\<open>'ELOCKED'\<close> and writes the error itself to the error channel for every other error; it
  returns in both cases, so a callback that rejects leaves the promise of \<^verbatim>\<open>main\<close> fulfilled,
  with the lock released.
\<close>

theorem handleMasterError_distinguishes:
  "(code error = Some ''ELOCKED'' \<longrightarrow>
      handleMasterError error p = p\<lparr>console := console p @ [Info ''Lock found...aborting'']\<rparr>)
   \<and> (code error \<noteq> Some ''ELOCKED'' \<longrightarrow>
      handleMasterError error p = p\<lparr>console := console p @ [ErrorLine error]\<rparr>)
   \<and> (\<not> lockHeld p \<and> cb (p\<lparr>lockHeld := True\<rparr>) = Inl error \<longrightarrow>
      main cb p = Inr ((handleMasterError error p)\<lparr>lockHeld := False\<rparr>))"
proof (intro conjI impI)
  assume "code error = Some ''ELOCKED''"
  then show "handleMasterError error p
               = p\<lparr>console := console p @ [Info ''Lock found...aborting'']\<rparr>"
    by (simp add: handleMasterError_def)
next
  assume "code error \<noteq> Some ''ELOCKED''"
  then show "handleMasterError error p = p\<lparr>console := console p @ [ErrorLine error]\<rparr>"
    by (simp add: handleMasterError_def)
next
  assume "\<not> lockHeld p \<and> cb (p\<lparr>lockHeld := True\<rparr>) = Inl error"
  then have acquired: "acquireHandlerLock p = Inr (p\<lparr>lockHeld := True\<rparr>)"
    and rejected: "cb (p\<lparr>lockHeld := True\<rparr>) = Inl error"
    by (simp_all add: acquireHandlerLock_def)
  have "main cb p = Inr (releaseHandlerLock (handleMasterError error (p\<lparr>lockHeld := True\<rparr>)))"
    by (simp add: main_def acquired rejected)
  also have "releaseHandlerLock (handleMasterError error (p\<lparr>lockHeld := True\<rparr>))
               = (handleMasterError error p)\<lparr>lockHeld := False\<rparr>"
    by (simp add: releaseHandlerLock_def handleMasterError_def)
  finally show "main cb p = Inr ((handleMasterError error p)\<lparr>lockHeld := False\<rparr>)" .
qed

theorem handleMasterError_distinguishes_witness:
  "code lockedError = Some ''ELOCKED''
   \<and> handleMasterError lockedError idle
       = idle\<lparr>console := console idle @ [Info ''Lock found...aborting'']\<rparr>
   \<and> code plainError \<noteq> Some ''ELOCKED''
   \<and> handleMasterError plainError idle = idle\<lparr>console := console idle @ [ErrorLine plainError]\<rparr>
   \<and> \<not> lockHeld idle
   \<and> rejecting lockedError (idle\<lparr>lockHeld := True\<rparr>) = Inl lockedError
   \<and> main (rejecting lockedError) idle
       = Inr ((handleMasterError lockedError idle)\<lparr>lockHeld := False\<rparr>)"
proof -
  have a: "code lockedError = Some ''ELOCKED''"
    by (simp add: lockedError_def)
  have b: "code plainError \<noteq> Some ''ELOCKED''"
    by (simp add: plainError_def)
  have c: "\<not> lockHeld idle"
    by (simp add: idle_def)
  have d: "rejecting lockedError (idle\<lparr>lockHeld := True\<rparr>) = Inl lockedError"
    by (simp add: rejecting_def)
  from handleMasterError_distinguishes [of lockedError idle "rejecting lockedError"]
    handleMasterError_distinguishes [of plainError idle "rejecting plainError"] a b c d
  show ?thesis by simp
qed

end
